theory Spec2Isabelle
  imports Complex_Main "HOL-Library.Sublist"
begin

section \<open>Credential pool (strix/llm/antigravity/auth.py, class AccountManager)\<close>

text \<open>
  An account is the dictionary written by \<open>authenticate_account\<close>. The manager reads the
  keys \<open>refreshToken\<close> and \<open>access\<close> by subscript (they are always written), and the keys
  \<open>expires\<close>, \<open>projectId\<close> and \<open>email\<close> through \<open>.get\<close> with a default, so these three are
  optional here. The keys \<open>tier\<close>, \<open>addedAt\<close> and \<open>lastUsed\<close> are never read by the manager
  or by the client and are left out. Timestamps are Python floats (seconds since the
  epoch); they are idealised as reals.
\<close>

record account =
  email :: "string option"
  refreshToken :: string
  projectId :: "string option"
  access :: string
  expires :: "real option"

record AccountManager =
  accounts :: "account list"
  active_index :: int

text \<open>
  The backing file \<open>ACCOUNTS_FILE\<close>: absent, present but not loadable (\<open>json.load\<close> or a
  \<open>.get\<close> raises), or a JSON object whose keys \<open>accounts\<close> and \<open>activeIndex\<close> may each be
  missing. The key \<open>version\<close> is written by \<open>save\<close> and never read.
\<close>

datatype accounts_file =
  Missing
| Unreadable
| Doc "account list option" "int option"

text \<open>
  The values that the client stores in \<open>last_error\<close>: its two formatted messages
  (\<open>Rate limit (429) on <endpoint>\<close>, \<open>Server error (<status>) on <endpoint>\<close>) and
  \<open>str(e)\<close> of a caught exception, by the exception's origin: the \<open>HTTPStatusError\<close> of
  \<open>raise_for_status\<close> (with the status), the \<open>ValueError\<close> of \<open>int\<close> (with the literal),
  and a transport error of the HTTP library (with its message).
\<close>

datatype failure =
  Rate_limit_429 string
| Server_error nat string
| HTTPStatusError nat
| Invalid_literal_for_int string
| Transport_error string

text \<open>
  The exceptions that leave the modelled functions: \<open>IndexError\<close> of a list subscript,
  the \<open>TypeError\<close> of unpacking \<open>None\<close> into two names, and the three exceptions the
  client raises itself, \<open>Exception("Authentication failed and no accounts available.")\<close>,
  \<open>Exception("Could not get valid token.")\<close> and
  \<open>Exception("All accounts rate limited or failed. Last error: \<dots>")\<close>.
\<close>

datatype error =
  IndexError
| TypeError_cannot_unpack_None
| Authentication_failed
| Could_not_get_valid_token
| All_accounts_failed "failure option"

text \<open>
  What \<open>refresh_access_token\<close> returns when it does not return \<open>None\<close>: the JSON body of
  the token endpoint's 2xx response, with the two keys that the manager reads from it.
\<close>

record tokens =
  access_token :: string
  expires_in :: real

text \<open>JSON values as \<open>json.loads\<close> returns them; an object keeps its keys in order.\<close>

datatype json =
  JNull
| JBool bool
| JNum real
| JStr string
| JArr "json list"
| JObj "(string \<times> json) list"

text \<open>
  What one streamed POST meets: the connection fails before any response (an exception
  of the HTTP library, with its message), or a response arrives, with its status code,
  its \<open>Retry-After\<close> header if any, the lines that \<open>aiter_lines\<close> delivers, and how the
  body ends: the server closes it, or a transport error interrupts it after those lines.
\<close>

datatype stream_end = Closed | Broken string

record response =
  status_code :: nat
  retry_after_header :: "string option"
  body_lines :: "string list"
  ending :: stream_end

datatype reply = Connect_failed string | Response response

record request =
  url :: string
  bearer :: string
  project :: string

text \<open>
  The outside world: the clock (\<open>time.time()\<close>, indexed by the number of earlier
  reads); \<open>refresh_access_token\<close> (indexed by the number of earlier calls, and given the
  refresh token), where \<open>None\<close> is the \<open>None\<close> it returns on a non-2xx answer or on a
  transport error; the upstream endpoints (\<open>post\<close>, indexed by the number of earlier
  requests of this invocation, and given the request); \<open>json.loads\<close>, where \<open>None\<close> is
  any exception it raises, and \<open>json.dumps\<close> followed by \<open>.encode("utf-8")\<close>, both over
  byte strings (a \<open>char\<close> is a byte); and the outcome of the interactive \<open>ensure_auth\<close> when it has
  to run: \<open>None\<close> when it raises, else the accounts it authenticated and added, of which
  there is at least one when its loop is left through \<open>break\<close>.
\<close>

record world =
  clock :: "nat \<Rightarrow> real"
  refresh_access_token :: "nat \<Rightarrow> string \<Rightarrow> tokens option"
  post :: "nat \<Rightarrow> request \<Rightarrow> reply"
  json_loads :: "string \<Rightarrow> json option"
  json_dumps :: "json \<Rightarrow> string"
  authenticated :: "(account \<times> account list) option"

text \<open>
  The effects of the manager: the content of the backing file (writing it is taken to
  succeed), how often the clock has been read, and the refresh tokens that
  \<open>refresh_access_token\<close> has been called with.
\<close>

record io =
  disk :: accounts_file
  ticks :: nat
  refresh_calls :: "string list"

definition load :: "accounts_file \<Rightarrow> AccountManager \<Rightarrow> AccountManager" where
  "load f m =
     (case f of
        Missing \<Rightarrow> m
      | Unreadable \<Rightarrow> m\<lparr>accounts := []\<rparr>
      | Doc a i \<Rightarrow>
          m\<lparr>accounts := (case a of None \<Rightarrow> [] | Some xs \<Rightarrow> xs),
            active_index := (case i of None \<Rightarrow> 0 | Some k \<Rightarrow> k)\<rparr>)"

definition init :: "accounts_file \<Rightarrow> AccountManager" where
  "init f = load f \<lparr>accounts = [], active_index = 0\<rparr>"

definition save :: "AccountManager \<Rightarrow> io \<Rightarrow> io" where
  "save m s = s\<lparr>disk := Doc (Some (accounts m)) (Some (active_index m))\<rparr>"

definition add_account :: "account \<Rightarrow> AccountManager \<Rightarrow> io \<Rightarrow> AccountManager \<times> io" where
  "add_account a m s = (let m' = m\<lparr>accounts := accounts m @ [a]\<rparr> in (m', save m' s))"

text \<open>
  The list subscript \<open>xs[i]\<close>: an index from \<open>-len\<close> to \<open>len - 1\<close> is accepted, a negative
  one counting from the end, and any other index raises \<open>IndexError\<close>. \<open>place\<close> is the
  element that an accepted index denotes.
\<close>

definition place :: "'a list \<Rightarrow> int \<Rightarrow> nat" where
  "place xs i = (if i < 0 then nat (int (length xs) + i) else nat i)"

definition subscript :: "'a list \<Rightarrow> int \<Rightarrow> error + 'a" where
  "subscript xs i =
     (if - int (length xs) \<le> i \<and> i < int (length xs) then Inr (xs ! place xs i)
      else Inl IndexError)"

definition get_current_account ::
  "AccountManager \<Rightarrow> (error + account option) \<times> AccountManager" where
  "get_current_account m =
     (if accounts m = [] then (Inr None, m)
      else
        let m' = (if active_index m \<ge> int (length (accounts m))
                  then m\<lparr>active_index := 0\<rparr> else m)
        in (case subscript (accounts m') (active_index m') of
              Inl e \<Rightarrow> (Inl e, m')
            | Inr a \<Rightarrow> (Inr (Some a), m')))"

definition rotate_account :: "AccountManager \<Rightarrow> io \<Rightarrow> AccountManager \<times> io" where
  "rotate_account m s =
     (if accounts m = [] then (m, s)
      else
        let m' = m\<lparr>active_index := (active_index m + 1) mod int (length (accounts m))\<rparr>
        in (m', save m' s))"

definition mark_rate_limited :: "int \<Rightarrow> AccountManager \<Rightarrow> io \<Rightarrow> AccountManager \<times> io" where
  "mark_rate_limited retry_after m s = rotate_account m s"

definition read_clock :: "world \<Rightarrow> io \<Rightarrow> real \<times> io" where
  "read_clock w s = (clock w (ticks s), s\<lparr>ticks := Suc (ticks s)\<rparr>)"

definition call_refresh :: "world \<Rightarrow> string \<Rightarrow> io \<Rightarrow> tokens option \<times> io" where
  "call_refresh w rt s =
     (refresh_access_token w (length (refresh_calls s)) rt,
      s\<lparr>refresh_calls := refresh_calls s @ [rt]\<rparr>)"

text \<open>The two reads with a default: \<open>account.get("expires", 0)\<close> and \<open>account.get("projectId", "")\<close>.\<close>

definition get_expires :: "account \<Rightarrow> real" where
  "get_expires a = (case expires a of None \<Rightarrow> 0 | Some e \<Rightarrow> e)"

definition get_projectId :: "account \<Rightarrow> string" where
  "get_projectId a = (case projectId a of None \<Rightarrow> [] | Some p \<Rightarrow> p)"

text \<open>
  \<open>get_valid_token\<close>: \<open>Inr None\<close> is the \<open>None\<close> it returns, \<open>Inl\<close> an exception that leaves
  it. The account is a dictionary shared with the list, so the assignments to
  \<open>account["access"]\<close> and \<open>account["expires"]\<close> change the list element that was read.
\<close>

definition get_valid_token ::
  "world \<Rightarrow> AccountManager \<Rightarrow> io \<Rightarrow> (error + (string \<times> string) option) \<times> AccountManager \<times> io" where
  "get_valid_token w m s =
     (case get_current_account m of
        (Inl e, m1) \<Rightarrow> (Inl e, m1, s)
      | (Inr None, m1) \<Rightarrow> (Inr None, m1, s)
      | (Inr (Some account), m1) \<Rightarrow>
          let expires0 = get_expires account;
              (now, s1) = read_clock w s
          in if now \<ge> expires0 - 60 then
               (case call_refresh w (refreshToken account) s1 of
                  (Some new_tokens, s2) \<Rightarrow>
                    let account1 = account\<lparr>access := access_token new_tokens\<rparr>;
                        (now2, s3) = read_clock w s2;
                        account2 = account1\<lparr>expires := Some (now2 + expires_in new_tokens)\<rparr>;
                        m2 = m1\<lparr>accounts :=
                                 (accounts m1)[place (accounts m1) (active_index m1) := account2]\<rparr>;
                        s4 = save m2 s3
                    in (Inr (Some (access account2, get_projectId account2)), m2, s4)
                | (None, s2) \<Rightarrow> (Inr None, m1, s2))
             else (Inr (Some (access account, get_projectId account)), m1, s1))"

section \<open>Streaming client (strix/llm/antigravity/client.py, constants.py)\<close>

definition CODE_ASSIST_ENDPOINT_DAILY :: string where
  "CODE_ASSIST_ENDPOINT_DAILY = ''https://daily-cloudcode-pa.sandbox.googleapis.com''"

definition CODE_ASSIST_ENDPOINT_AUTOPUSH :: string where
  "CODE_ASSIST_ENDPOINT_AUTOPUSH = ''https://autopush-cloudcode-pa.sandbox.googleapis.com''"

definition CODE_ASSIST_ENDPOINT_PROD :: string where
  "CODE_ASSIST_ENDPOINT_PROD = ''https://cloudcode-pa.googleapis.com''"

definition CODE_ASSIST_ENDPOINT_FALLBACKS :: "string list" where
  "CODE_ASSIST_ENDPOINT_FALLBACKS =
     [CODE_ASSIST_ENDPOINT_DAILY, CODE_ASSIST_ENDPOINT_AUTOPUSH, CODE_ASSIST_ENDPOINT_PROD]"

subsection \<open>Python built-ins used by the client\<close>

text \<open>
  Text is modelled with one \<open>char\<close> per code point, so with code points below 256.
  \<open>str.strip()\<close> removes the white space of \<open>str.isspace\<close> at both ends: tab, line
  feed, vertical tab, form feed, carriage return, the four separators \<open>0x1c\<close> to \<open>0x1f\<close>,
  space, next line (\<open>0x85\<close>) and no-break space (\<open>0xa0\<close>).
\<close>

definition isspace :: "char \<Rightarrow> bool" where
  "isspace c = (of_char c \<in> {9, 10, 11, 12, 13, 28, 29, 30, 31, 32, 133, 160 :: nat})"

definition strip :: "string \<Rightarrow> string" where
  "strip s = rev (dropWhile isspace (rev (dropWhile isspace s)))"

definition startswith :: "string \<Rightarrow> string \<Rightarrow> bool" where
  "startswith s p = (take (length p) s = p)"

text \<open>
  \<open>int(s)\<close> for a string, base 10. The white space that \<open>int\<close> skips at both ends is
  narrower than that of \<open>strip\<close>: tab, line feed, vertical tab, form feed, carriage
  return and space, and of the code points above 126 those that are white space (next
  line and no-break space); the separators \<open>0x1c\<close> to \<open>0x1f\<close> are not skipped. Then comes an
  optional sign, then decimal digits with single underscores allowed between them. A
  literal of more than 4300 digits is refused (the default of
  \<open>sys.int_max_str_digits\<close>). \<open>None\<close> is \<open>ValueError\<close>.
\<close>

definition int_space :: "char \<Rightarrow> bool" where
  "int_space c = (of_char c \<in> {9, 10, 11, 12, 13, 32, 133, 160 :: nat})"

definition digit_of :: "char \<Rightarrow> nat option" where
  "digit_of c = (let n = (of_char c :: nat) in if 48 \<le> n \<and> n \<le> 57 then Some (n - 48) else None)"

fun int_digits :: "bool \<Rightarrow> int \<Rightarrow> string \<Rightarrow> int option" where
  "int_digits after_digit acc [] = (if after_digit then Some acc else None)"
| "int_digits after_digit acc (c # cs) =
     (if c = CHR ''_'' then (if after_digit then int_digits False acc cs else None)
      else (case digit_of c of
              None \<Rightarrow> None
            | Some d \<Rightarrow> int_digits True (10 * acc + int d) cs))"

definition py_int :: "string \<Rightarrow> int option" where
  "py_int s =
     (let t = rev (dropWhile int_space (rev (dropWhile int_space s)))
      in if 4300 < length (filter (\<lambda>c. digit_of c \<noteq> None) t) then None
         else (case t of
                 [] \<Rightarrow> None
               | c # cs \<Rightarrow>
                   if c = CHR ''-'' then map_option uminus (int_digits False 0 cs)
                   else if c = CHR ''+'' then int_digits False 0 cs
                   else int_digits False 0 (c # cs)))"

text \<open>Truth value of a JSON value in a condition (\<open>if candidates:\<close>).\<close>

fun truthy :: "json \<Rightarrow> bool" where
  "truthy JNull = False"
| "truthy (JBool b) = b"
| "truthy (JNum x) = (x \<noteq> 0)"
| "truthy (JStr s) = (s \<noteq> [])"
| "truthy (JArr xs) = (xs \<noteq> [])"
| "truthy (JObj kvs) = (kvs \<noteq> [])"

text \<open>
  \<open>x.get(key, default)\<close>: only a dictionary has \<open>get\<close>; on any other value the attribute
  lookup raises (\<open>None\<close>).
\<close>

fun dict_get :: "json \<Rightarrow> string \<Rightarrow> json \<Rightarrow> json option" where
  "dict_get (JObj kvs) k d = Some (case map_of kvs k of None \<Rightarrow> d | Some v \<Rightarrow> v)"
| "dict_get _ k d = None"

text \<open>
  \<open>x[0]\<close>: the first element of a list, the first character of a string; \<open>KeyError\<close> on
  a dictionary (its keys are strings), \<open>IndexError\<close> on an empty list or string, and
  \<open>TypeError\<close> on the other values (\<open>None\<close> for each).
\<close>

fun item0 :: "json \<Rightarrow> json option" where
  "item0 (JArr (x # xs)) = Some x"
| "item0 (JStr (c # cs)) = Some (JStr [c])"
| "item0 _ = None"

subsection \<open>Server-sent events\<close>

text \<open>
  The body of the \<open>try\<close> block for one decoded event: \<open>Some text\<close> when the \<open>yield\<close> is
  reached, with the value put into \<open>delta.content\<close>; \<open>None\<close> when it is not, be it by a
  false condition or by an exception, which \<open>except Exception: pass\<close> drops. The lookup of
  \<open>finishReason\<close> comes after the \<open>yield\<close> and changes nothing.
\<close>

definition event_text :: "json \<Rightarrow> json option" where
  "event_text data =
     (case dict_get data ''response'' data of
        None \<Rightarrow> None
      | Some actual_response \<Rightarrow>
     (case dict_get actual_response ''candidates'' (JArr []) of
        None \<Rightarrow> None
      | Some candidates \<Rightarrow>
     if \<not> truthy candidates then None else
     (case item0 candidates of
        None \<Rightarrow> None
      | Some candidate \<Rightarrow>
     (case dict_get candidate ''content'' (JObj []) of
        None \<Rightarrow> None
      | Some content \<Rightarrow>
     (case dict_get content ''parts'' (JArr []) of
        None \<Rightarrow> None
      | Some content_part \<Rightarrow>
     if \<not> truthy content_part then None else
     (case item0 content_part of
        None \<Rightarrow> None
      | Some part \<Rightarrow>
     (case dict_get part ''text'' (JStr []) of
        None \<Rightarrow> None
      | Some text \<Rightarrow> if truthy text then Some text else None)))))))"

text \<open>One line of the stream: the chunk it makes the generator yield, if any.\<close>

definition on_line :: "world \<Rightarrow> string \<Rightarrow> json option" where
  "on_line w line =
     (if line = [] then None
      else if startswith line ''data:'' then
        (let json_str = strip (drop 5 line)
         in if json_str = [] then None
            else (case json_loads w json_str of
                    None \<Rightarrow> None
                  | Some data \<Rightarrow> event_text data))
      else None)"

fun aiter_lines :: "world \<Rightarrow> string list \<Rightarrow> json list \<Rightarrow> json list" where
  "aiter_lines w [] out = out"
| "aiter_lines w (line # rest) out =
     aiter_lines w rest (case on_line w line of None \<Rightarrow> out | Some chunk \<Rightarrow> out @ [chunk])"

subsection \<open>The retry loop\<close>

text \<open>
  \<open>Response.raise_for_status\<close> of the HTTP library raises \<open>HTTPStatusError\<close> unless the
  status is a success (200 to 299).
\<close>

definition raise_for_status :: "response \<Rightarrow> failure option" where
  "raise_for_status resp =
     (if 200 \<le> status_code resp \<and> status_code resp \<le> 299 then None
      else Some (HTTPStatusError (status_code resp)))"

text \<open>
  The state of one invocation of \<open>stream_generate_content\<close>: the account manager and its
  effects, the requests sent so far, the chunks yielded to the caller so far (their
  \<open>delta.content\<close>), and the local variables \<open>last_error\<close> and \<open>attempts\<close>.
\<close>

record run =
  manager :: AccountManager
  effects :: io
  sent :: "request list"
  yielded :: "json list"
  last_error :: "failure option"
  attempts :: nat

datatype exit = Returned | Next_attempt

text \<open>
  \<open>int(response.headers.get(name, d))\<close>: the default when the header is absent, else
  \<open>int\<close> of its value, whose \<open>ValueError\<close> is the \<open>Inl\<close>.
\<close>

definition header_int :: "string option \<Rightarrow> int \<Rightarrow> failure + int" where
  "header_int h d =
     (case h of
        None \<Rightarrow> Inr d
      | Some v \<Rightarrow> (case py_int v of None \<Rightarrow> Inl (Invalid_literal_for_int v) | Some n \<Rightarrow> Inr n))"

text \<open>The POST to one endpoint: its URL, the bearer token and the project of the body.\<close>

definition stream_request :: "string \<Rightarrow> string \<Rightarrow> string \<Rightarrow> request" where
  "stream_request endpoint token project_id =
     \<lparr>url = endpoint @ ''/v1internal:streamGenerateContent?alt=sse'',
      bearer = token, project = project_id\<rparr>"

text \<open>
  The \<open>for endpoint in CODE_ASSIST_ENDPOINT_FALLBACKS\<close> loop over the endpoints still to
  try. \<open>Returned\<close> is the \<open>return\<close> after a stream was read to its end; \<open>Next_attempt\<close> is
  the end of the loop, by \<open>break\<close> or because the list is used up. Every exception raised
  inside \<open>try\<close> is caught by \<open>except Exception\<close>, which stores \<open>str(e)\<close> and continues.
\<close>

fun try_endpoints :: "world \<Rightarrow> string \<Rightarrow> string \<Rightarrow> string list \<Rightarrow> run \<Rightarrow> exit \<times> run" where
  "try_endpoints w token project_id [] r = (Next_attempt, r)"
| "try_endpoints w token project_id (endpoint # rest) r =
     (let rq = stream_request endpoint token project_id;
          answer = post w (length (sent r)) rq;
          r1 = r\<lparr>sent := sent r @ [rq]\<rparr>
      in case answer of
           Connect_failed msg \<Rightarrow>
             try_endpoints w token project_id rest (r1\<lparr>last_error := Some (Transport_error msg)\<rparr>)
         | Response resp \<Rightarrow>
             if status_code resp = 429 then
               (case header_int (retry_after_header resp) 1 of
                  Inl e \<Rightarrow> try_endpoints w token project_id rest (r1\<lparr>last_error := Some e\<rparr>)
                | Inr retry_after \<Rightarrow>
                    (let (m', s') = mark_rate_limited retry_after (manager r1) (effects r1)
                     in (Next_attempt,
                         r1\<lparr>manager := m', effects := s',
                            last_error := Some (Rate_limit_429 endpoint)\<rparr>)))
             else if status_code resp \<ge> 500 then
               try_endpoints w token project_id rest
                 (r1\<lparr>last_error := Some (Server_error (status_code resp) endpoint)\<rparr>)
             else
               (case raise_for_status resp of
                  Some e \<Rightarrow> try_endpoints w token project_id rest (r1\<lparr>last_error := Some e\<rparr>)
                | None \<Rightarrow>
                    (let r2 = r1\<lparr>yielded := aiter_lines w (body_lines resp) (yielded r1)\<rparr>
                     in case ending resp of
                          Closed \<Rightarrow> (Returned, r2)
                        | Broken msg \<Rightarrow>
                            try_endpoints w token project_id rest
                              (r2\<lparr>last_error := Some (Transport_error msg)\<rparr>))))"

text \<open>
  The \<open>while attempts < max_retries\<close> loop. The result is \<open>None\<close> when the generator
  returns and \<open>Some e\<close> when \<open>e\<close> is raised; the chunks yielded until then are in the
  state. \<open>token, project_id = get_valid_token()\<close> unpacks the result into two names,
  which raises \<open>TypeError\<close> when the result is \<open>None\<close>.
\<close>

function attempt_loop :: "world \<Rightarrow> nat \<Rightarrow> run \<Rightarrow> error option \<times> run" where
  "attempt_loop w max_retries r =
     (if attempts r < max_retries then
        (let r0 = r\<lparr>attempts := attempts r + 1\<rparr>;
             (res, m1, s1) = get_valid_token w (manager r0) (effects r0);
             r1 = r0\<lparr>manager := m1, effects := s1\<rparr>
         in case res of
              Inl e \<Rightarrow> (Some e, r1)
            | Inr None \<Rightarrow> (Some TypeError_cannot_unpack_None, r1)
            | Inr (Some (token, project_id)) \<Rightarrow>
                if token = [] then (Some Could_not_get_valid_token, r1)
                else (case try_endpoints w token project_id CODE_ASSIST_ENDPOINT_FALLBACKS r1 of
                        (Returned, r2) \<Rightarrow> (None, r2)
                      | (Next_attempt, r2) \<Rightarrow> attempt_loop w max_retries r2))
      else (Some (All_accounts_failed (last_error r)), r))"
  by pat_completeness auto


definition ensure_auth :: "world \<Rightarrow> AccountManager \<Rightarrow> io \<Rightarrow> error + AccountManager \<times> io" where
  "ensure_auth w m s =
     (if accounts m = [] then
        (case authenticated w of
           None \<Rightarrow> Inl Authentication_failed
         | Some (a, others) \<Rightarrow>
             Inr (fold (\<lambda>acct (m', s'). add_account acct m' s') (a # others) (m, s)))
      else Inr (m, s))"

definition start :: "AccountManager \<Rightarrow> io \<Rightarrow> run" where
  "start m s =
     \<lparr>manager = m, effects = s, sent = [], yielded = [], last_error = None, attempts = 0\<rparr>"

text \<open>
  \<open>stream_generate_content\<close>. The arguments \<open>model\<close>, \<open>messages\<close> and \<open>kwargs\<close> only fill
  the request body and are left out. \<open>max_retries\<close> is computed once, before the loop.
\<close>

definition stream_generate_content :: "world \<Rightarrow> AccountManager \<Rightarrow> io \<Rightarrow> error option \<times> run" where
  "stream_generate_content w m s =
     (case (if accounts m = [] then ensure_auth w m s else Inr (m, s)) of
        Inl e \<Rightarrow> (Some e, start m s)
      | Inr (m0, s0) \<Rightarrow>
          (let max_retries = 3 * length (accounts m0)
           in attempt_loop w max_retries (start m0 s0)))"

section \<open>The OAuth state token (auth.py, encode_state and decode_state)\<close>

text \<open>
  URL-safe base64 of the standard library (RFC 4648, alphabet \<open>A-Z a-z 0-9 - _\<close>), over
  byte strings. \<open>b64_symbol\<close> is the character of a 6-bit value and \<open>b64_value\<close> the
  6-bit value of a character of the alphabet.
\<close>

definition b64_symbol :: "nat \<Rightarrow> char" where
  "b64_symbol n =
     (if n < 26 then char_of (65 + n)
      else if n < 52 then char_of (97 + (n - 26))
      else if n < 62 then char_of (48 + (n - 52))
      else if n = 62 then CHR ''-'' else CHR ''_'')"

definition b64_value :: "char \<Rightarrow> nat option" where
  "b64_value c =
     (let n = (of_char c :: nat)
      in if 65 \<le> n \<and> n \<le> 90 then Some (n - 65)
         else if 97 \<le> n \<and> n \<le> 122 then Some (n - 97 + 26)
         else if 48 \<le> n \<and> n \<le> 57 then Some (n - 48 + 52)
         else if c = CHR ''-'' then Some 62
         else if c = CHR ''_'' then Some 63
         else None)"

fun urlsafe_b64encode :: "string \<Rightarrow> string" where
  "urlsafe_b64encode [] = []"
| "urlsafe_b64encode [a] =
     [b64_symbol (of_char a div 4), b64_symbol (of_char a mod 4 * 16), CHR ''='', CHR ''='']"
| "urlsafe_b64encode [a, b] =
     [b64_symbol (of_char a div 4),
      b64_symbol (of_char a mod 4 * 16 + of_char b div 16),
      b64_symbol (of_char b mod 16 * 4), CHR ''='']"
| "urlsafe_b64encode (a # b # c # rest) =
     [b64_symbol (of_char a div 4),
      b64_symbol (of_char a mod 4 * 16 + of_char b div 16),
      b64_symbol (of_char b mod 16 * 4 + of_char c div 64),
      b64_symbol (of_char c mod 64)] @ urlsafe_b64encode rest"

text \<open>
  Decoding of well-formed text: groups of four characters of the alphabet, the last
  group ending in at most two \<open>=\<close>. \<open>None\<close> is any other text; what the library does with
  it (it drops foreign characters and raises on wrong padding) is not modelled.
\<close>

definition decode_group :: "char \<Rightarrow> char \<Rightarrow> char \<Rightarrow> char \<Rightarrow> string option" where
  "decode_group p q r s =
     (case (b64_value p, b64_value q, b64_value r, b64_value s) of
        (Some i, Some j, Some k, Some l) \<Rightarrow>
          Some [char_of (i * 4 + j div 16), char_of (j mod 16 * 16 + k div 4),
                char_of (k mod 4 * 64 + l)]
      | _ \<Rightarrow> None)"

definition decode_last_group :: "char \<Rightarrow> char \<Rightarrow> char \<Rightarrow> char \<Rightarrow> string option" where
  "decode_last_group p q r s =
     (if r = CHR ''='' \<and> s = CHR ''='' then
        (case (b64_value p, b64_value q) of
           (Some i, Some j) \<Rightarrow> Some [char_of (i * 4 + j div 16)]
         | _ \<Rightarrow> None)
      else if s = CHR ''='' then
        (case (b64_value p, b64_value q, b64_value r) of
           (Some i, Some j, Some k) \<Rightarrow>
             Some [char_of (i * 4 + j div 16), char_of (j mod 16 * 16 + k div 4)]
         | _ \<Rightarrow> None)
      else decode_group p q r s)"

fun urlsafe_b64decode :: "string \<Rightarrow> string option" where
  "urlsafe_b64decode [] = Some []"
| "urlsafe_b64decode (p # q # r # s # rest) =
     (if rest = [] then decode_last_group p q r s
      else (case decode_group p q r s of
              None \<Rightarrow> None
            | Some bytes \<Rightarrow> map_option ((@) bytes) (urlsafe_b64decode rest)))"
| "urlsafe_b64decode _ = None"

definition rstrip :: "char \<Rightarrow> string \<Rightarrow> string" where
  "rstrip c s = rev (dropWhile (\<lambda>x. x = c) (rev s))"

definition encode_state :: "world \<Rightarrow> json \<Rightarrow> string" where
  "encode_state w payload =
     (let json_bytes = json_dumps w payload
      in rstrip (CHR ''='') (urlsafe_b64encode json_bytes))"

text \<open>\<open>decode_state\<close>: \<open>None\<close> is an exception of the decoder or of \<open>json.loads\<close>.\<close>

definition decode_state :: "world \<Rightarrow> string \<Rightarrow> json option" where
  "decode_state w state =
     (let padding = 4 - length state mod 4;
          state1 = (if padding \<noteq> 4 then state @ replicate padding (CHR ''='') else state)
      in case urlsafe_b64decode state1 of
           None \<Rightarrow> None
         | Some json_bytes \<Rightarrow> json_loads w json_bytes)"

text \<open>
  The state in which the endpoints are tried: \<open>attempts\<close> incremented, and the manager
  and its effects as \<open>get_valid_token\<close> left them.
\<close>

definition attempted :: "run \<Rightarrow> AccountManager \<Rightarrow> io \<Rightarrow> run" where
  "attempted r m1 s1 = r\<lparr>attempts := attempts r + 1, manager := m1, effects := s1\<rparr>"

text \<open>
  A pool from which every attempt obtains a token: it is not empty, its cursor is
  accepted by the subscript, no stored token is empty, and either every stored token
  stays fresh or every refresh succeeds with a token that is not empty.
\<close>

definition serviceable :: "world \<Rightarrow> AccountManager \<Rightarrow> bool" where
  "serviceable w m \<longleftrightarrow>
     accounts m \<noteq> [] \<and> - int (length (accounts m)) \<le> active_index m \<and>
     (\<forall>a \<in> set (accounts m). access a \<noteq> []) \<and>
     ((\<forall>a \<in> set (accounts m). \<forall>n. clock w n < get_expires a - 60) \<or>
      (\<forall>n rt. \<exists>tk. refresh_access_token w n rt = Some tk \<and> access_token tk \<noteq> []))"

text \<open>
  The state after the endpoint loop when all three endpoints answered with status 500.
\<close>

definition tried_all :: "string \<Rightarrow> string \<Rightarrow> run \<Rightarrow> run" where
  "tried_all token project_id r =
     r\<lparr>sent := sent r @ map (\<lambda>e. stream_request e token project_id) CODE_ASSIST_ENDPOINT_FALLBACKS,
       last_error := Some (Server_error 500 CODE_ASSIST_ENDPOINT_PROD)\<rparr>"

section \<open>Operation sequences on the pool\<close>

text \<open>
  The operations of the manager that a caller can invoke after loading, run in sequence;
  a sequence stops at the first exception.
\<close>

datatype operation = Current_account | Valid_token | Rotate | Add account

fun apply_operation ::
  "world \<Rightarrow> operation \<Rightarrow> AccountManager \<times> io \<Rightarrow> error + AccountManager \<times> io" where
  "apply_operation w Current_account (m, s) =
     (case get_current_account m of (Inl e, m') \<Rightarrow> Inl e | (Inr _, m') \<Rightarrow> Inr (m', s))"
| "apply_operation w Valid_token (m, s) =
     (case get_valid_token w m s of (Inl e, m', s') \<Rightarrow> Inl e | (Inr _, m', s') \<Rightarrow> Inr (m', s'))"
| "apply_operation w Rotate (m, s) = Inr (rotate_account m s)"
| "apply_operation w (Add a) (m, s) = Inr (add_account a m s)"

fun run_operations ::
  "world \<Rightarrow> operation list \<Rightarrow> AccountManager \<times> io \<Rightarrow> error + AccountManager \<times> io" where
  "run_operations w [] ms = Inr ms"
| "run_operations w (x # xs) ms =
     (case apply_operation w x ms of Inl e \<Rightarrow> Inl e | Inr ms' \<Rightarrow> run_operations w xs ms')"

section \<open>Sample inputs\<close>

definition sample_account :: account where
  "sample_account =
     \<lparr>email = Some ''dev@example.com'', refreshToken = ''refresh-1'',
      projectId = Some ''project-1'', access = ''token-1'', expires = Some 1000\<rparr>"

definition other_account :: account where
  "other_account =
     \<lparr>email = None, refreshToken = ''refresh-2'',
      projectId = None, access = ''token-2'', expires = Some 5000\<rparr>"

definition io0 :: io where
  "io0 = \<lparr>disk = Missing, ticks = 0, refresh_calls = []\<rparr>"

text \<open>A well-formed event with one text part, with or without the \<open>response\<close> envelope.\<close>

definition text_event :: "string \<Rightarrow> json" where
  "text_event t =
     JObj [(''candidates'',
            JArr [JObj [(''content'', JObj [(''parts'', JArr [JObj [(''text'', JStr t)]])])]])]"

definition enveloped :: "json \<Rightarrow> json" where
  "enveloped e = JObj [(''response'', e)]"

definition hel_line :: string where
  "hel_line = ''data: {\"candidates\":[{\"content\":{\"parts\":[{\"text\":\"Hel\"}]}}]}''"

definition lo_line :: string where
  "lo_line = ''data: {\"response\":{\"candidates\":[{\"content\":{\"parts\":[{\"text\":\"lo\"}]}}]}}''"

definition sample_state :: json where
  "sample_state = JObj [(''verifier'', JStr ''v3rifier''), (''projectId'', JStr [])]"

definition sample_state_bytes :: string where
  "sample_state_bytes = ''{\"verifier\": \"v3rifier\", \"projectId\": \"\"}''"

definition sample_loads :: "string \<Rightarrow> json option" where
  "sample_loads s =
     (if s = drop 6 hel_line then Some (text_event ''Hel'')
      else if s = drop 6 lo_line then Some (enveloped (text_event ''lo''))
      else if s = sample_state_bytes then Some sample_state
      else None)"

text \<open>
  A world whose clock always shows \<open>now\<close>, whose refreshes all fail, and whose \<open>n\<close>-th
  request is answered by \<open>replies n\<close>.
\<close>

definition sample_world :: "real \<Rightarrow> (nat \<Rightarrow> reply) \<Rightarrow> world" where
  "sample_world now replies =
     \<lparr>clock = (\<lambda>n. now), refresh_access_token = (\<lambda>n rt. None),
      post = (\<lambda>n rq. replies n), json_loads = sample_loads,
      json_dumps = (\<lambda>j. sample_state_bytes), authenticated = None\<rparr>"

definition answer :: "nat \<Rightarrow> string option \<Rightarrow> string list \<Rightarrow> stream_end \<Rightarrow> reply" where
  "answer code ra ls e =
     Response \<lparr>status_code = code, retry_after_header = ra, body_lines = ls, ending = e\<rparr>"

definition broken_then_closed :: "nat \<Rightarrow> reply" where
  "broken_then_closed n =
     (if n = 0 then answer 200 None [hel_line] (Broken ''connection reset'')
      else answer 200 None [hel_line] Closed)"

definition unauthorized_then_closed :: "nat \<Rightarrow> reply" where
  "unauthorized_then_closed n =
     (if n = 0 then answer 401 None [] Closed else answer 200 None [hel_line] Closed)"

definition http_date_429_then_closed :: "nat \<Rightarrow> reply" where
  "http_date_429_then_closed n =
     (if n = 0 then answer 429 (Some ''Wed, 21 Oct 2015 07:28:00 GMT'') [] Closed
      else answer 200 None [hel_line] Closed)"

definition always_500 :: "nat \<Rightarrow> reply" where
  "always_500 n = answer 500 None [] Closed"

definition a_500_b_two_events :: "nat \<Rightarrow> reply" where
  "a_500_b_two_events n =
     (if n = 0 then answer 500 None [] Closed
      else answer 200 None [hel_line, [], lo_line, []] Closed)"

definition one_account :: AccountManager where
  "one_account = \<lparr>accounts = [sample_account], active_index = 0\<rparr>"

definition two_accounts :: AccountManager where
  "two_accounts = \<lparr>accounts = [sample_account, other_account], active_index = 0\<rparr>"

text \<open>
  A backing file whose cursor is beyond its two accounts, a world whose refreshes
  succeed, and the pool of one account after such a refresh at time 2000.
\<close>

definition stale_file :: accounts_file where
  "stale_file = Doc (Some [sample_account, other_account]) (Some 5)"

definition refreshing_world :: world where
  "refreshing_world =
     (sample_world 2000 always_500)
       \<lparr>refresh_access_token := (\<lambda>n rt. Some \<lparr>access_token = ''token-new'', expires_in = 3600\<rparr>)\<rparr>"

definition refreshed_account :: AccountManager where
  "refreshed_account =
     \<lparr>accounts = [sample_account\<lparr>access := ''token-new'', expires := Some 5600\<rparr>],
      active_index = 0\<rparr>"

section \<open>Termination of the retry loop\<close>

lemma try_endpoints_attempts:
  "try_endpoints w token project_id es r = (x, r') \<Longrightarrow> attempts r' = attempts r"
proof (induction es arbitrary: r)
  case Nil
  then show ?case by simp
next
  case (Cons endpoint rest)
  then show ?case
    by (auto simp: Let_def mark_rate_limited_def
             split: reply.splits option.splits sum.splits stream_end.splits prod.splits if_splits)
qed

termination attempt_loop
  apply (relation "measure (\<lambda>(w, max_retries, r). max_retries - attempts r)")
   apply simp
  apply (auto dest!: sym [of "(_, _)" "try_endpoints _ _ _ _ _"] try_endpoints_attempts)
  done

declare attempt_loop.simps [simp del]

section \<open>Facts about the sample inputs\<close>

lemma on_line_hel: "on_line (sample_world t rs) hel_line = Some (JStr ''Hel'')"
  by (simp add: on_line_def sample_world_def hel_line_def startswith_def strip_def isspace_def
        sample_loads_def event_text_def text_event_def)

lemma on_line_lo: "on_line (sample_world t rs) lo_line = Some (JStr ''lo'')"
  by (simp add: on_line_def sample_world_def hel_line_def lo_line_def startswith_def strip_def
        isspace_def sample_loads_def event_text_def text_event_def enveloped_def)

lemma on_line_empty: "on_line w [] = None"
  by (simp add: on_line_def)

lemma sample_world_sel:
  "clock (sample_world t rs) n = t"
  "refresh_access_token (sample_world t rs) n rt = None"
  "post (sample_world t rs) n rq = rs n"
  by (simp_all add: sample_world_def)

lemmas manager_defs =
  get_valid_token_def get_current_account_def subscript_def place_def read_clock_def
  call_refresh_def save_def rotate_account_def mark_rate_limited_def get_expires_def
  get_projectId_def

lemmas sample_defs =
  one_account_def two_accounts_def sample_account_def other_account_def io0_def answer_def
  CODE_ASSIST_ENDPOINT_FALLBACKS_def

section \<open>The streamed text is only ever extended\<close>

lemma aiter_lines_prefix: "prefix out (aiter_lines w ls out)"
proof (induction ls arbitrary: out)
  case Nil
  show ?case by simp
next
  case (Cons l ls)
  have "prefix out (case on_line w l of None \<Rightarrow> out | Some chunk \<Rightarrow> out @ [chunk])"
    by (simp split: option.split)
  then show ?case
    using Cons.IH prefix_order.trans by fastforce
qed

lemma try_endpoints_prefix:
  "prefix (yielded r) (yielded (snd (try_endpoints w token project_id es r)))"
proof (induction es arbitrary: r)
  case Nil
  show ?case by simp
next
  case (Cons endpoint rest)
  note IH = Cons.IH
  let ?rq = "stream_request endpoint token project_id"
  let ?r1 = "r\<lparr>sent := sent r @ [?rq]\<rparr>"
  show ?case
  proof (cases "post w (length (sent r)) ?rq")
    case (Connect_failed msg)
    then show ?thesis
      using IH [of "?r1\<lparr>last_error := Some (Transport_error msg)\<rparr>"] by (simp add: Let_def)
  next
    case (Response resp)
    let ?r2 = "?r1\<lparr>yielded := aiter_lines w (body_lines resp) (yielded r)\<rparr>"
    have step: "prefix (yielded r) (yielded ?r2)"
      by (simp add: aiter_lines_prefix)
    show ?thesis
      using Response step
        IH [of "?r1\<lparr>last_error := Some e\<rparr>" for e]
        IH [of "?r1\<lparr>last_error := Some (Server_error (status_code resp) endpoint)\<rparr>"]
        IH [of "?r1\<lparr>last_error := raise_for_status resp\<rparr>"]
        IH [of "?r2\<lparr>last_error := Some (Transport_error msg)\<rparr>" for msg]
      by (auto simp: Let_def split: option.splits sum.splits stream_end.splits prod.splits
               intro: prefix_order.trans)
  qed
qed

section \<open>Unfolding the retry loop\<close>

lemma attempt_loop_exhausted:
  "\<not> attempts r < n \<Longrightarrow> attempt_loop w n r = (Some (All_accounts_failed (last_error r)), r)"
  by (simp add: attempt_loop.simps [of w n r])

lemma attempt_loop_error:
  "attempts r < n \<Longrightarrow> get_valid_token w (manager r) (effects r) = (Inl e, m1, s1) \<Longrightarrow>
   attempt_loop w n r = (Some e, attempted r m1 s1)"
  by (simp add: attempt_loop.simps [of w n r] attempted_def)

lemma attempt_loop_unavailable:
  "attempts r < n \<Longrightarrow> get_valid_token w (manager r) (effects r) = (Inr None, m1, s1) \<Longrightarrow>
   attempt_loop w n r = (Some TypeError_cannot_unpack_None, attempted r m1 s1)"
  by (simp add: attempt_loop.simps [of w n r] attempted_def)

lemma attempt_loop_empty_token:
  "attempts r < n \<Longrightarrow>
   get_valid_token w (manager r) (effects r) = (Inr (Some ([], project_id)), m1, s1) \<Longrightarrow>
   attempt_loop w n r = (Some Could_not_get_valid_token, attempted r m1 s1)"
  by (simp add: attempt_loop.simps [of w n r] attempted_def)

lemma attempt_loop_returned:
  "attempts r < n \<Longrightarrow>
   get_valid_token w (manager r) (effects r) = (Inr (Some (token, project_id)), m1, s1) \<Longrightarrow>
   token \<noteq> [] \<Longrightarrow>
   try_endpoints w token project_id CODE_ASSIST_ENDPOINT_FALLBACKS (attempted r m1 s1) = (Returned, r2) \<Longrightarrow>
   attempt_loop w n r = (None, r2)"
  by (simp add: attempt_loop.simps [of w n r] attempted_def)

lemma attempt_loop_next:
  "attempts r < n \<Longrightarrow>
   get_valid_token w (manager r) (effects r) = (Inr (Some (token, project_id)), m1, s1) \<Longrightarrow>
   token \<noteq> [] \<Longrightarrow>
   try_endpoints w token project_id CODE_ASSIST_ENDPOINT_FALLBACKS (attempted r m1 s1) = (Next_attempt, r2) \<Longrightarrow>
   attempt_loop w n r = attempt_loop w n r2"
  by (simp add: attempt_loop.simps [of w n r] attempted_def)

lemma attempt_loop_cases:
  obtains (exhausted) "\<not> attempts r < n"
      "attempt_loop w n r = (Some (All_accounts_failed (last_error r)), r)"
  | (raised) e m1 s1 where "attempts r < n"
      "attempt_loop w n r = (Some e, attempted r m1 s1)"
  | (returned) token project_id m1 s1 r2 where "attempts r < n"
      "try_endpoints w token project_id CODE_ASSIST_ENDPOINT_FALLBACKS (attempted r m1 s1) = (Returned, r2)"
      "attempt_loop w n r = (None, r2)"
  | (next_attempt) token project_id m1 s1 r2 where "attempts r < n"
      "try_endpoints w token project_id CODE_ASSIST_ENDPOINT_FALLBACKS (attempted r m1 s1) = (Next_attempt, r2)"
      "attempt_loop w n r = attempt_loop w n r2"
proof (cases "attempts r < n")
  case False
  then show ?thesis using exhausted attempt_loop_exhausted by blast
next
  case True
  obtain res m1 s1 where gv: "get_valid_token w (manager r) (effects r) = (res, m1, s1)"
    using prod_cases3 by blast
  show ?thesis
  proof (cases res)
    case (Inl e)
    then show ?thesis using True gv raised attempt_loop_error by blast
  next
    case (Inr v)
    show ?thesis
    proof (cases v)
      case None
      then show ?thesis using True gv Inr raised attempt_loop_unavailable by blast
    next
      case (Some tp)
      obtain token project_id where tp: "tp = (token, project_id)" by (cases tp)
      obtain x r2 where te:
        "try_endpoints w token project_id CODE_ASSIST_ENDPOINT_FALLBACKS (attempted r m1 s1) = (x, r2)"
        by (cases "try_endpoints w token project_id CODE_ASSIST_ENDPOINT_FALLBACKS (attempted r m1 s1)")
      show ?thesis
      proof (cases "token = []")
        case True
        then show ?thesis
          using \<open>attempts r < n\<close> gv Inr Some tp raised attempt_loop_empty_token by blast
      next
        case False
        show ?thesis
        proof (cases x)
          case Returned
          then show ?thesis
            using \<open>attempts r < n\<close> gv Inr Some tp False te returned attempt_loop_returned by blast
        next
          case Next_attempt
          then show ?thesis
            using \<open>attempts r < n\<close> gv Inr Some tp False te next_attempt attempt_loop_next by blast
        qed
      qed
    qed
  qed
qed

lemma attempt_loop_prefix:
  "prefix (yielded r) (yielded (snd (attempt_loop w n r)))"
proof (induction "n - attempts r" arbitrary: r rule: less_induct)
  case less
  show ?case
  proof (cases rule: attempt_loop_cases [where r = r and n = n and w = w])
    case exhausted
    then show ?thesis by simp
  next
    case (raised e m1 s1)
    then show ?thesis by (simp add: attempted_def)
  next
    case (returned token project_id m1 s1 r2)
    then show ?thesis
      using try_endpoints_prefix [of "attempted r m1 s1" w token project_id CODE_ASSIST_ENDPOINT_FALLBACKS]
      by (simp add: attempted_def)
  next
    case (next_attempt token project_id m1 s1 r2)
    have "attempts r2 = attempts r + 1"
      using try_endpoints_attempts [OF next_attempt(2)] by (simp add: attempted_def)
    with next_attempt(1) have "n - attempts r2 < n - attempts r" by simp
    then have "prefix (yielded r2) (yielded (snd (attempt_loop w n r2)))"
      by (rule less.hyps)
    moreover have "prefix (yielded r) (yielded r2)"
      using try_endpoints_prefix [of "attempted r m1 s1" w token project_id CODE_ASSIST_ENDPOINT_FALLBACKS]
        next_attempt(2) by (simp add: attempted_def)
    ultimately show ?thesis
      using next_attempt(3) prefix_order.trans by fastforce
  qed
qed

lemma attempt_loop_budget:
  "attempts (snd (attempt_loop w n r)) \<le> max n (attempts r)"
proof (induction "n - attempts r" arbitrary: r rule: less_induct)
  case less
  show ?case
  proof (cases rule: attempt_loop_cases [where r = r and n = n and w = w])
    case exhausted
    then show ?thesis by simp
  next
    case (raised e m1 s1)
    then show ?thesis by (simp add: attempted_def)
  next
    case (returned token project_id m1 s1 r2)
    then show ?thesis
      using try_endpoints_attempts [OF returned(2)] by (simp add: attempted_def)
  next
    case (next_attempt token project_id m1 s1 r2)
    have a: "attempts r2 = attempts r + 1"
      using try_endpoints_attempts [OF next_attempt(2)] by (simp add: attempted_def)
    with next_attempt(1) have "n - attempts r2 < n - attempts r" by simp
    then have "attempts (snd (attempt_loop w n r2)) \<le> max n (attempts r2)"
      by (rule less.hyps)
    with a next_attempt(1,3) show ?thesis by simp
  qed
qed

section \<open>Evaluating the client on the sample inputs\<close>

lemmas run_defs =
  stream_generate_content_def start_def attempt_loop.simps stream_request_def raise_for_status_def
  header_int_def
  CODE_ASSIST_ENDPOINT_DAILY_def CODE_ASSIST_ENDPOINT_AUTOPUSH_def CODE_ASSIST_ENDPOINT_PROD_def

lemma http_date_is_no_int: "py_int ''Wed, 21 Oct 2015 07:28:00 GMT'' = None"
  by (simp add: py_int_def int_space_def digit_of_def)

section \<open>The streaming engine\<close>

text \<open>
  C1, as the code has it. When an endpoint has answered with a 2xx status and a transport
  error interrupts its stream, the chunks yielded so far stay yielded, the error is
  stored in \<open>last_error\<close>, and the loop goes on with the next endpoint of the list, as
  for any other exception; nothing that was yielded is ever retracted, in the endpoint
  loop as in the whole retry loop (the yielded sequence is only extended).
\<close>

theorem mid_stream_error_continues:
  assumes "post w (length (sent r)) (stream_request endpoint token project_id) = Response resp"
    and "200 \<le> status_code resp" and "status_code resp \<le> 299"
    and "ending resp = Broken msg"
  shows "try_endpoints w token project_id (endpoint # rest) r =
           try_endpoints w token project_id rest
             (r\<lparr>sent := sent r @ [stream_request endpoint token project_id],
                yielded := aiter_lines w (body_lines resp) (yielded r),
                last_error := Some (Transport_error msg)\<rparr>) \<and>
         prefix (yielded r) (aiter_lines w (body_lines resp) (yielded r)) \<and>
         (\<forall>n r'. prefix (yielded r') (yielded (snd (attempt_loop w n r'))))"
  using assms by (simp add: Let_def raise_for_status_def aiter_lines_prefix attempt_loop_prefix)

theorem mid_stream_error_continues_witness:
  "post (sample_world 0 broken_then_closed) (length (sent (start one_account io0)))
     (stream_request CODE_ASSIST_ENDPOINT_DAILY ''token-1'' ''project-1'')
     = Response \<lparr>status_code = 200, retry_after_header = None, body_lines = [hel_line],
                  ending = Broken ''connection reset''\<rparr> \<and>
   try_endpoints (sample_world 0 broken_then_closed) ''token-1'' ''project-1''
     [CODE_ASSIST_ENDPOINT_DAILY, CODE_ASSIST_ENDPOINT_AUTOPUSH, CODE_ASSIST_ENDPOINT_PROD]
     (start one_account io0) =
   try_endpoints (sample_world 0 broken_then_closed) ''token-1'' ''project-1''
     [CODE_ASSIST_ENDPOINT_AUTOPUSH, CODE_ASSIST_ENDPOINT_PROD]
     ((start one_account io0)
        \<lparr>sent := [stream_request CODE_ASSIST_ENDPOINT_DAILY ''token-1'' ''project-1''],
         yielded := [JStr ''Hel''],
         last_error := Some (Transport_error ''connection reset'')\<rparr>)"
  using mid_stream_error_continues
    [of "sample_world 0 broken_then_closed" "start one_account io0" CODE_ASSIST_ENDPOINT_DAILY
        "''token-1''" "''project-1''"
        "\<lparr>status_code = 200, retry_after_header = None, body_lines = [hel_line],
          ending = Broken ''connection reset''\<rparr>"
        "''connection reset''" "[CODE_ASSIST_ENDPOINT_AUTOPUSH, CODE_ASSIST_ENDPOINT_PROD]"]
  by (simp add: sample_world_sel broken_then_closed_def answer_def start_def on_line_hel)

text \<open>
  C1, as stated, fails: the first endpoint yields one increment and its stream breaks;
  the engine then posts to the second endpoint and yields the same text again.
\<close>

theorem mid_stream_error_retries_counterexample:
  "fst (stream_generate_content (sample_world 0 broken_then_closed) one_account io0) = None \<and>
   yielded (snd (stream_generate_content (sample_world 0 broken_then_closed) one_account io0))
     = [JStr ''Hel'', JStr ''Hel''] \<and>
   sent (snd (stream_generate_content (sample_world 0 broken_then_closed) one_account io0))
     = [stream_request CODE_ASSIST_ENDPOINT_DAILY ''token-1'' ''project-1'',
        stream_request CODE_ASSIST_ENDPOINT_AUTOPUSH ''token-1'' ''project-1'']"
  by (simp add: run_defs manager_defs sample_defs sample_world_sel broken_then_closed_def
        on_line_hel Let_def)

text \<open>
  C2, as the code has it. A response whose status is neither 429, nor 500 or more, nor
  a success makes \<open>raise_for_status\<close> raise inside the \<open>try\<close> block; the exception is
  caught, stored in \<open>last_error\<close>, and the loop goes on with the next endpoint. The
  manager is left as it is (no rotation), and nothing is raised to the caller.
\<close>

theorem client_error_continues:
  assumes "post w (length (sent r)) (stream_request endpoint token project_id) = Response resp"
    and "status_code resp \<noteq> 429" and "status_code resp < 500"
    and "status_code resp < 200 \<or> 299 < status_code resp"
  shows "try_endpoints w token project_id (endpoint # rest) r =
           try_endpoints w token project_id rest
             (r\<lparr>sent := sent r @ [stream_request endpoint token project_id],
                last_error := Some (HTTPStatusError (status_code resp))\<rparr>)"
  using assms by (auto simp: Let_def raise_for_status_def)

theorem client_error_continues_witness:
  "post (sample_world 0 unauthorized_then_closed) (length (sent (start one_account io0)))
     (stream_request CODE_ASSIST_ENDPOINT_DAILY ''token-1'' ''project-1'')
     = Response \<lparr>status_code = 401, retry_after_header = None, body_lines = [], ending = Closed\<rparr> \<and>
   try_endpoints (sample_world 0 unauthorized_then_closed) ''token-1'' ''project-1''
     [CODE_ASSIST_ENDPOINT_DAILY, CODE_ASSIST_ENDPOINT_AUTOPUSH, CODE_ASSIST_ENDPOINT_PROD]
     (start one_account io0) =
   try_endpoints (sample_world 0 unauthorized_then_closed) ''token-1'' ''project-1''
     [CODE_ASSIST_ENDPOINT_AUTOPUSH, CODE_ASSIST_ENDPOINT_PROD]
     ((start one_account io0)
        \<lparr>sent := [stream_request CODE_ASSIST_ENDPOINT_DAILY ''token-1'' ''project-1''],
         last_error := Some (HTTPStatusError 401)\<rparr>)"
  using client_error_continues
    [of "sample_world 0 unauthorized_then_closed" "start one_account io0" CODE_ASSIST_ENDPOINT_DAILY
        "''token-1''" "''project-1''"
        "\<lparr>status_code = 401, retry_after_header = None, body_lines = [], ending = Closed\<rparr>"
        "[CODE_ASSIST_ENDPOINT_AUTOPUSH, CODE_ASSIST_ENDPOINT_PROD]"]
  by (simp add: sample_world_sel unauthorized_then_closed_def answer_def start_def)

text \<open>
  C2, as stated, fails: the first endpoint answers 401; the engine raises nothing,
  posts to the second endpoint, yields its text and returns.
\<close>

theorem client_error_not_raised_counterexample:
  "fst (stream_generate_content (sample_world 0 unauthorized_then_closed) one_account io0) = None \<and>
   yielded (snd (stream_generate_content (sample_world 0 unauthorized_then_closed) one_account io0))
     = [JStr ''Hel''] \<and>
   sent (snd (stream_generate_content (sample_world 0 unauthorized_then_closed) one_account io0))
     = [stream_request CODE_ASSIST_ENDPOINT_DAILY ''token-1'' ''project-1'',
        stream_request CODE_ASSIST_ENDPOINT_AUTOPUSH ''token-1'' ''project-1'']"
  by (simp add: run_defs manager_defs sample_defs sample_world_sel unauthorized_then_closed_def
        on_line_hel Let_def)

text \<open>
  What the 429 branch does when the header is absent or holds an integer: the pool is
  rotated through \<open>mark_rate_limited\<close>, the rate limit is stored in \<open>last_error\<close>, and
  the endpoint loop is left with the remaining endpoints untried.
\<close>

lemma rate_limit_rotates:
  assumes "post w (length (sent r)) (stream_request endpoint token project_id) = Response resp"
    and "status_code resp = 429"
    and "retry_after_header resp = None \<or> (\<exists>v n. retry_after_header resp = Some v \<and> py_int v = Some n)"
  shows "try_endpoints w token project_id (endpoint # rest) r =
           (Next_attempt,
            r\<lparr>sent := sent r @ [stream_request endpoint token project_id],
              manager := fst (rotate_account (manager r) (effects r)),
              effects := snd (rotate_account (manager r) (effects r)),
              last_error := Some (Rate_limit_429 endpoint)\<rparr>)"
  using assms
  by (auto simp: Let_def header_int_def mark_rate_limited_def split: prod.splits)

text \<open>
  C3 at a 429 response whose \<open>Retry-After\<close> header is an HTTP date: \<open>int\<close> raises, the
  exception is caught inside the endpoint loop, and the engine goes on with the next
  endpoint of the same attempt. The pool is not rotated and nothing is persisted.
\<close>

theorem unparseable_retry_after_no_rotation:
  "py_int ''Wed, 21 Oct 2015 07:28:00 GMT'' = None \<and>
   fst (stream_generate_content (sample_world 0 http_date_429_then_closed) two_accounts io0) = None \<and>
   sent (snd (stream_generate_content (sample_world 0 http_date_429_then_closed) two_accounts io0))
     = [stream_request CODE_ASSIST_ENDPOINT_DAILY ''token-1'' ''project-1'',
        stream_request CODE_ASSIST_ENDPOINT_AUTOPUSH ''token-1'' ''project-1''] \<and>
   manager (snd (stream_generate_content (sample_world 0 http_date_429_then_closed) two_accounts io0))
     = two_accounts \<and>
   disk (effects (snd (stream_generate_content (sample_world 0 http_date_429_then_closed) two_accounts io0)))
     = Missing \<and>
   attempts (snd (stream_generate_content (sample_world 0 http_date_429_then_closed) two_accounts io0)) = 1"
  by (simp add: run_defs manager_defs sample_defs sample_world_sel http_date_429_then_closed_def
        on_line_hel http_date_is_no_int Let_def)


text \<open>
  C7 at a pool whose only account has an expired token and whose refresh fails:
  \<open>get_valid_token\<close> returns \<open>None\<close>, and the engine stops at once, with no request sent
  and one attempt counted; the exception raised is the \<open>TypeError\<close> of the unpacking,
  not \<open>Exception("Could not get valid token.")\<close>.
\<close>

theorem unavailable_token_raises_type_error:
  "fst (stream_generate_content (sample_world 2000 always_500) one_account io0)
     = Some TypeError_cannot_unpack_None \<and>
   fst (stream_generate_content (sample_world 2000 always_500) one_account io0)
     \<noteq> Some Could_not_get_valid_token \<and>
   sent (snd (stream_generate_content (sample_world 2000 always_500) one_account io0)) = [] \<and>
   attempts (snd (stream_generate_content (sample_world 2000 always_500) one_account io0)) = 1 \<and>
   get_valid_token (sample_world 2000 always_500) one_account io0
     = (Inr None, one_account, io0\<lparr>ticks := 1, refresh_calls := [''refresh-1'']\<rparr>)"
  by (simp add: run_defs manager_defs sample_defs sample_world_sel Let_def)

section \<open>Reading a stream of events\<close>

lemma on_line_ignored: "\<not> (l \<noteq> [] \<and> startswith l ''data:'') \<Longrightarrow> on_line w l = None"
  by (auto simp: on_line_def)

lemma aiter_lines_data_only:
  "aiter_lines w ls out = aiter_lines w (filter (\<lambda>l. l \<noteq> [] \<and> startswith l ''data:'') ls) out"
  by (induction ls arbitrary: out) (simp_all add: on_line_ignored)

lemma on_line_data:
  "strip p \<noteq> [] \<Longrightarrow> json_loads w (strip p) = Some e \<Longrightarrow> on_line w (''data:'' @ p) = event_text e"
  by (simp add: on_line_def startswith_def)

lemma event_text_text_event: "t \<noteq> [] \<Longrightarrow> event_text (text_event t) = Some (JStr t)"
  by (simp add: event_text_def text_event_def)

lemma event_text_enveloped: "t \<noteq> [] \<Longrightarrow> event_text (enveloped (text_event t)) = Some (JStr t)"
  by (simp add: event_text_def text_event_def enveloped_def)

lemma get_valid_token_nonempty:
  "get_valid_token w m s = (Inr (Some tp), m1, s1) \<Longrightarrow> accounts m \<noteq> []"
  by (auto simp: get_valid_token_def get_current_account_def)

text \<open>
  C10. The fallback list is \<open>[DAILY, AUTOPUSH, PROD]\<close>. When the first endpoint answers
  with status 500 and the second with a 2xx stream that the server closes and whose
  data lines are exactly two text events (with or without the \<open>response\<close> envelope,
  among any number of empty or foreign lines), the engine yields exactly the two texts
  in order and returns: two requests were sent, none to the third endpoint, and one
  attempt was made.
\<close>

theorem failover_to_second_endpoint:
  assumes "get_valid_token w m s = (Inr (Some (token, project_id)), m1, s1)" and "token \<noteq> []"
    and "post w 0 (stream_request CODE_ASSIST_ENDPOINT_DAILY token project_id) = Response respA"
    and "status_code respA = 500"
    and "post w 1 (stream_request CODE_ASSIST_ENDPOINT_AUTOPUSH token project_id) = Response respB"
    and "200 \<le> status_code respB" and "status_code respB \<le> 299" and "ending respB = Closed"
    and "filter (\<lambda>l. l \<noteq> [] \<and> startswith l ''data:'') (body_lines respB)
           = [''data:'' @ p1, ''data:'' @ p2]"
    and "strip p1 \<noteq> []" and "json_loads w (strip p1) = Some e1"
    and "e1 = text_event t1 \<or> e1 = enveloped (text_event t1)" and "t1 \<noteq> []"
    and "strip p2 \<noteq> []" and "json_loads w (strip p2) = Some e2"
    and "e2 = text_event t2 \<or> e2 = enveloped (text_event t2)" and "t2 \<noteq> []"
  shows "fst (stream_generate_content w m s) = None \<and>
         yielded (snd (stream_generate_content w m s)) = [JStr t1, JStr t2] \<and>
         sent (snd (stream_generate_content w m s))
           = [stream_request CODE_ASSIST_ENDPOINT_DAILY token project_id,
              stream_request CODE_ASSIST_ENDPOINT_AUTOPUSH token project_id] \<and>
         attempts (snd (stream_generate_content w m s)) = 1"
proof -
  have ne: "accounts m \<noteq> []"
    using assms(1) by (rule get_valid_token_nonempty)
  then have budget: "attempts (start m s) < 3 * length (accounts m)"
    by (cases "accounts m") (simp_all add: start_def)
  have "event_text e1 = Some (JStr t1)"
    using assms(12,13) event_text_text_event event_text_enveloped by blast
  then have l1: "on_line w (''data:'' @ p1) = Some (JStr t1)"
    using on_line_data [OF assms(10,11)] by simp
  have "event_text e2 = Some (JStr t2)"
    using assms(16,17) event_text_text_event event_text_enveloped by blast
  then have l2: "on_line w (''data:'' @ p2) = Some (JStr t2)"
    using on_line_data [OF assms(14,15)] by simp
  have body: "aiter_lines w (body_lines respB) [] = [JStr t1, JStr t2]"
    by (subst aiter_lines_data_only) (simp add: assms(9) l1 l2 del: append.simps)
  let ?r2 = "(attempted (start m s) m1 s1)
     \<lparr>sent := [stream_request CODE_ASSIST_ENDPOINT_DAILY token project_id,
                stream_request CODE_ASSIST_ENDPOINT_AUTOPUSH token project_id],
      last_error := Some (Server_error 500 CODE_ASSIST_ENDPOINT_DAILY),
      yielded := [JStr t1, JStr t2]\<rparr>"
  have te: "try_endpoints w token project_id CODE_ASSIST_ENDPOINT_FALLBACKS
              (attempted (start m s) m1 s1) = (Returned, ?r2)"
    using assms(3-8) body
    by (simp add: CODE_ASSIST_ENDPOINT_FALLBACKS_def attempted_def start_def Let_def
          raise_for_status_def)
  have "stream_generate_content w m s = (None, ?r2)"
    using ne attempt_loop_returned [OF budget _ assms(2) te] assms(1)
    by (simp add: stream_generate_content_def start_def)
  then show ?thesis
    by (simp add: attempted_def start_def)
qed


theorem failover_to_second_endpoint_witness:
  "get_valid_token (sample_world 0 a_500_b_two_events) one_account io0
     = (Inr (Some (''token-1'', ''project-1'')), one_account, io0\<lparr>ticks := 1\<rparr>) \<and>
   post (sample_world 0 a_500_b_two_events) 0
     (stream_request CODE_ASSIST_ENDPOINT_DAILY ''token-1'' ''project-1'')
     = answer 500 None [] Closed \<and>
   post (sample_world 0 a_500_b_two_events) 1
     (stream_request CODE_ASSIST_ENDPOINT_AUTOPUSH ''token-1'' ''project-1'')
     = answer 200 None [hel_line, [], lo_line, []] Closed \<and>
   json_loads (sample_world 0 a_500_b_two_events) (strip (drop 5 hel_line))
     = Some (text_event ''Hel'') \<and>
   json_loads (sample_world 0 a_500_b_two_events) (strip (drop 5 lo_line))
     = Some (enveloped (text_event ''lo'')) \<and>
   fst (stream_generate_content (sample_world 0 a_500_b_two_events) one_account io0) = None \<and>
   yielded (snd (stream_generate_content (sample_world 0 a_500_b_two_events) one_account io0))
     = [JStr ''Hel'', JStr ''lo''] \<and>
   sent (snd (stream_generate_content (sample_world 0 a_500_b_two_events) one_account io0))
     = [stream_request CODE_ASSIST_ENDPOINT_DAILY ''token-1'' ''project-1'',
        stream_request CODE_ASSIST_ENDPOINT_AUTOPUSH ''token-1'' ''project-1''] \<and>
   attempts (snd (stream_generate_content (sample_world 0 a_500_b_two_events) one_account io0)) = 1"
proof -
  let ?w = "sample_world 0 a_500_b_two_events"
  let ?A = "\<lparr>status_code = 500, retry_after_header = None, body_lines = [], ending = Closed\<rparr>"
  let ?B = "\<lparr>status_code = 200, retry_after_header = None,
             body_lines = [hel_line, [], lo_line, []], ending = Closed\<rparr>"
  have h1: "get_valid_token ?w one_account io0
              = (Inr (Some (''token-1'', ''project-1'')), one_account, io0\<lparr>ticks := 1\<rparr>)"
    by (simp add: manager_defs sample_defs sample_world_sel Let_def)
  have h2: "''token-1'' \<noteq> []" by simp
  have h3: "post ?w 0 (stream_request CODE_ASSIST_ENDPOINT_DAILY ''token-1'' ''project-1'') = Response ?A"
    by (simp add: sample_world_sel a_500_b_two_events_def answer_def)
  have h4: "status_code ?A = 500" by simp
  have h5: "post ?w 1 (stream_request CODE_ASSIST_ENDPOINT_AUTOPUSH ''token-1'' ''project-1'') = Response ?B"
    by (simp add: sample_world_sel a_500_b_two_events_def answer_def)
  have h6: "200 \<le> status_code ?B" and h7: "status_code ?B \<le> 299" and h8: "ending ?B = Closed"
    by simp_all
  have h9: "filter (\<lambda>l. l \<noteq> [] \<and> startswith l ''data:'') (body_lines ?B)
              = [''data:'' @ drop 5 hel_line, ''data:'' @ drop 5 lo_line]"
    by (simp add: startswith_def hel_line_def lo_line_def)
  have s1: "strip (drop 5 hel_line) = drop 6 hel_line"
    by (simp add: hel_line_def strip_def isspace_def)
  have s2: "strip (drop 5 lo_line) = drop 6 lo_line"
    by (simp add: lo_line_def strip_def isspace_def)
  have h10: "strip (drop 5 hel_line) \<noteq> []"
    unfolding s1 by (simp add: hel_line_def)
  have h11: "json_loads ?w (strip (drop 5 hel_line)) = Some (text_event ''Hel'')"
    unfolding s1 by (simp add: sample_world_def sample_loads_def)
  have h12: "text_event ''Hel'' = text_event ''Hel'' \<or> text_event ''Hel'' = enveloped (text_event ''Hel'')"
    by simp
  have h13: "''Hel'' \<noteq> []" by simp
  have h14: "strip (drop 5 lo_line) \<noteq> []"
    unfolding s2 by (simp add: lo_line_def)
  have h15: "json_loads ?w (strip (drop 5 lo_line)) = Some (enveloped (text_event ''lo''))"
    unfolding s2 by (simp add: sample_world_def sample_loads_def hel_line_def lo_line_def)
  have h16: "enveloped (text_event ''lo'') = text_event ''lo'' \<or>
             enveloped (text_event ''lo'') = enveloped (text_event ''lo'')"
    by simp
  have h17: "''lo'' \<noteq> []" by simp
  show ?thesis
    using failover_to_second_endpoint
      [OF h1 h2 h3 h4 h5 h6 h7 h8 h9 h10 h11 h12 h13 h14 h15 h16 h17]
      h1 h3 h5 h11 h15
    by (simp add: answer_def)
qed

section \<open>The current account\<close>

lemma current_accountD:
  assumes "get_current_account m = (Inr (Some a), m1)"
  shows "accounts m \<noteq> []" and "accounts m1 = accounts m"
    and "active_index m1 = (if int (length (accounts m)) \<le> active_index m then 0 else active_index m)"
    and "active_index m1 < int (length (accounts m1))"
    and "- int (length (accounts m1)) \<le> active_index m1"
    and "place (accounts m1) (active_index m1) < length (accounts m1)"
    and "accounts m1 ! place (accounts m1) (active_index m1) = a"
proof -
  show ne: "accounts m \<noteq> []"
    using assms by (auto simp: get_current_account_def)
  define m' where "m' = (if int (length (accounts m)) \<le> active_index m then m\<lparr>active_index := 0\<rparr> else m)"
  have sub: "subscript (accounts m') (active_index m') = Inr a" and m1: "m1 = m'"
    using assms ne by (auto simp: get_current_account_def m'_def Let_def split: sum.splits)
  show "accounts m1 = accounts m"
    by (simp add: m1 m'_def)
  show "active_index m1 = (if int (length (accounts m)) \<le> active_index m then 0 else active_index m)"
    by (simp add: m1 m'_def)
  show "active_index m1 < int (length (accounts m1))"
    using ne by (simp add: m1 m'_def)
  show "- int (length (accounts m1)) \<le> active_index m1"
    using sub by (simp add: m1 subscript_def split: if_splits)
  show "place (accounts m1) (active_index m1) < length (accounts m1)"
    using sub by (auto simp: m1 subscript_def place_def split: if_splits)
  show "accounts m1 ! place (accounts m1) (active_index m1) = a"
    using sub by (simp add: m1 subscript_def split: if_splits)
qed

lemma current_account_nonneg:
  assumes "0 \<le> active_index m"
  shows "\<exists>x m'. get_current_account m = (Inr x, m') \<and> 0 \<le> active_index m' \<and>
           accounts m' = accounts m \<and>
           (\<forall>a. x = Some a \<longrightarrow> active_index m' < int (length (accounts m')) \<and>
                 a = accounts m' ! nat (active_index m'))"
  using assms
  by (auto simp: get_current_account_def subscript_def place_def Let_def)

lemma current_account_updated:
  assumes "accounts m1 \<noteq> []" and "active_index m1 < int (length (accounts m1))"
    and "- int (length (accounts m1)) \<le> active_index m1"
    and "place (accounts m1) (active_index m1) < length (accounts m1)"
  shows "get_current_account
           (m1\<lparr>accounts := (accounts m1)[place (accounts m1) (active_index m1) := a']\<rparr>) =
           (Inr (Some a'),
            m1\<lparr>accounts := (accounts m1)[place (accounts m1) (active_index m1) := a']\<rparr>)"
  using assms
  by (auto simp: get_current_account_def subscript_def place_def Let_def)

section \<open>What get_valid_token does, by case\<close>

lemma get_valid_token_fresh_token:
  assumes "get_current_account m = (Inr (Some a), m1)"
    and "clock w (ticks s) < get_expires a - 60"
  shows "get_valid_token w m s =
           (Inr (Some (access a, get_projectId a)), m1, s\<lparr>ticks := Suc (ticks s)\<rparr>)"
  using assms by (simp add: get_valid_token_def read_clock_def)

lemma get_valid_token_refresh_failed:
  assumes "get_current_account m = (Inr (Some a), m1)"
    and "get_expires a - 60 \<le> clock w (ticks s)"
    and "refresh_access_token w (length (refresh_calls s)) (refreshToken a) = None"
  shows "get_valid_token w m s =
           (Inr None, m1,
            s\<lparr>ticks := Suc (ticks s), refresh_calls := refresh_calls s @ [refreshToken a]\<rparr>)"
  using assms by (simp add: get_valid_token_def read_clock_def call_refresh_def)

lemma get_valid_token_refreshed:
  assumes "get_current_account m = (Inr (Some a), m1)"
    and "get_expires a - 60 \<le> clock w (ticks s)"
    and "refresh_access_token w (length (refresh_calls s)) (refreshToken a) = Some tk"
    and "a' = a\<lparr>access := access_token tk,
                 expires := Some (clock w (Suc (ticks s)) + expires_in tk)\<rparr>"
    and "m2 = m1\<lparr>accounts := (accounts m1)[place (accounts m1) (active_index m1) := a']\<rparr>"
  shows "get_valid_token w m s =
           (Inr (Some (access_token tk, get_projectId a)), m2,
            s\<lparr>ticks := Suc (Suc (ticks s)),
              refresh_calls := refresh_calls s @ [refreshToken a],
              disk := Doc (Some (accounts m2)) (Some (active_index m2))\<rparr>)"
  using assms
  by (simp add: get_valid_token_def read_clock_def call_refresh_def save_def Let_def
        get_projectId_def)

text \<open>
  C5. For a pool with a current account, \<open>get_valid_token\<close> calls the refresh exactly
  when the clock has reached the account's expiry minus 60 seconds: before that it
  returns the stored token with no refresh call, and from then on it makes exactly one
  call, with the account's refresh token. When that call succeeds, the account's
  \<open>access\<close> and \<open>expires\<close> are replaced in the list (the expiry by the time read after
  the refresh plus \<open>expires_in\<close>), the pool is written to the backing file, and the new
  token is returned; any later call made while the clock is below the new expiry minus
  60 seconds returns the new token without a refresh.
\<close>

theorem refresh_iff_near_expiry:
  assumes "get_current_account m = (Inr (Some a), m1)"
  shows "(clock w (ticks s) < get_expires a - 60 \<longrightarrow>
            get_valid_token w m s =
              (Inr (Some (access a, get_projectId a)), m1, s\<lparr>ticks := Suc (ticks s)\<rparr>)) \<and>
         (get_expires a - 60 \<le> clock w (ticks s) \<longrightarrow>
            refresh_calls (snd (snd (get_valid_token w m s))) = refresh_calls s @ [refreshToken a]) \<and>
         (\<forall>tk a' m2.
            get_expires a - 60 \<le> clock w (ticks s) \<and>
            refresh_access_token w (length (refresh_calls s)) (refreshToken a) = Some tk \<and>
            a' = a\<lparr>access := access_token tk,
                    expires := Some (clock w (Suc (ticks s)) + expires_in tk)\<rparr> \<and>
            m2 = m1\<lparr>accounts :=
                      (accounts m1)[place (accounts m1) (active_index m1) := a']\<rparr> \<longrightarrow>
            get_valid_token w m s =
              (Inr (Some (access_token tk, get_projectId a)), m2,
               s\<lparr>ticks := Suc (Suc (ticks s)),
                 refresh_calls := refresh_calls s @ [refreshToken a],
                 disk := Doc (Some (accounts m2)) (Some (active_index m2))\<rparr>) \<and>
            get_current_account m2 = (Inr (Some a'), m2) \<and>
            (\<forall>s'. clock w (ticks s') < clock w (Suc (ticks s)) + expires_in tk - 60 \<longrightarrow>
               get_valid_token w m2 s' =
                 (Inr (Some (access_token tk, get_projectId a)), m2, s'\<lparr>ticks := Suc (ticks s')\<rparr>)))"
proof (intro conjI allI impI)
  assume "clock w (ticks s) < get_expires a - 60"
  then show "get_valid_token w m s =
      (Inr (Some (access a, get_projectId a)), m1, s\<lparr>ticks := Suc (ticks s)\<rparr>)"
    using assms by (rule get_valid_token_fresh_token [rotated])
next
  assume near: "get_expires a - 60 \<le> clock w (ticks s)"
  show "refresh_calls (snd (snd (get_valid_token w m s))) = refresh_calls s @ [refreshToken a]"
  proof (cases "refresh_access_token w (length (refresh_calls s)) (refreshToken a)")
    case None
    then show ?thesis
      using get_valid_token_refresh_failed [OF assms near] by simp
  next
    case (Some tk)
    then show ?thesis
      using get_valid_token_refreshed [OF assms near Some refl refl] by simp
  qed
next
  fix tk a' m2
  assume h: "get_expires a - 60 \<le> clock w (ticks s) \<and>
            refresh_access_token w (length (refresh_calls s)) (refreshToken a) = Some tk \<and>
            a' = a\<lparr>access := access_token tk,
                    expires := Some (clock w (Suc (ticks s)) + expires_in tk)\<rparr> \<and>
            m2 = m1\<lparr>accounts :=
                      (accounts m1)[place (accounts m1) (active_index m1) := a']\<rparr>"
  then show "get_valid_token w m s =
              (Inr (Some (access_token tk, get_projectId a)), m2,
               s\<lparr>ticks := Suc (Suc (ticks s)),
                 refresh_calls := refresh_calls s @ [refreshToken a],
                 disk := Doc (Some (accounts m2)) (Some (active_index m2))\<rparr>)"
    using get_valid_token_refreshed [OF assms] by blast
  note cur = current_accountD [OF assms]
  have ne: "accounts m1 \<noteq> []"
    using cur(1,2) by simp
  show cur2: "get_current_account m2 = (Inr (Some a'), m2)"
    using current_account_updated [OF ne cur(4) cur(5) cur(6), of a'] h by simp
  fix s' :: io
  assume "clock w (ticks s') < clock w (Suc (ticks s)) + expires_in tk - 60"
  then have "clock w (ticks s') < get_expires a' - 60"
    using h by (simp add: get_expires_def)
  from get_valid_token_fresh_token [OF cur2 this]
  show "get_valid_token w m2 s' =
      (Inr (Some (access_token tk, get_projectId a)), m2, s'\<lparr>ticks := Suc (ticks s')\<rparr>)"
    using h by (simp add: get_projectId_def)
qed

text \<open>
  C6, as the code has it. When the refresh for the current account fails,
  \<open>get_valid_token\<close> returns \<open>None\<close>; the accounts are unchanged, nothing is written to
  the backing file, and the cursor is not advanced. The only change to the pool is the
  one of the current-account lookup: a cursor that is at or beyond the end of the list is
  set to 0. With the cursor below the length of the list the pool is exactly as before.
\<close>

theorem refresh_failure_leaves_pool:
  assumes "get_current_account m = (Inr (Some a), m1)"
    and "get_expires a - 60 \<le> clock w (ticks s)"
    and "refresh_access_token w (length (refresh_calls s)) (refreshToken a) = None"
  shows "get_valid_token w m s =
           (Inr None, m1,
            s\<lparr>ticks := Suc (ticks s), refresh_calls := refresh_calls s @ [refreshToken a]\<rparr>) \<and>
         accounts m1 = accounts m \<and>
         active_index m1 =
           (if int (length (accounts m)) \<le> active_index m then 0 else active_index m) \<and>
         (active_index m < int (length (accounts m)) \<longrightarrow> m1 = m) \<and>
         disk (snd (snd (get_valid_token w m s))) = disk s"
proof -
  have acc: "accounts m1 = accounts m"
    and idx: "active_index m1 =
      (if int (length (accounts m)) \<le> active_index m then 0 else active_index m)"
    by (rule current_accountD [OF assms(1)])+
  have gv: "get_valid_token w m s =
           (Inr None, m1,
            s\<lparr>ticks := Suc (ticks s), refresh_calls := refresh_calls s @ [refreshToken a]\<rparr>)"
    by (rule get_valid_token_refresh_failed [OF assms])
  have "active_index m < int (length (accounts m)) \<longrightarrow> m1 = m"
    using acc idx by (cases m, cases m1) auto
  with gv acc idx show ?thesis by simp
qed


lemma current_one_account:
  "get_current_account one_account = (Inr (Some sample_account), one_account)"
  by (simp add: manager_defs sample_defs)

theorem refresh_iff_near_expiry_witness:
  "get_current_account one_account = (Inr (Some sample_account), one_account) \<and>
   get_valid_token (sample_world 0 always_500) one_account io0
     = (Inr (Some (''token-1'', ''project-1'')), one_account, io0\<lparr>ticks := 1\<rparr>) \<and>
   get_valid_token refreshing_world one_account io0
     = (Inr (Some (''token-new'', ''project-1'')), refreshed_account,
        io0\<lparr>ticks := 2, refresh_calls := [''refresh-1''],
            disk := Doc (Some (accounts refreshed_account)) (Some 0)\<rparr>) \<and>
   get_valid_token refreshing_world refreshed_account
       (io0\<lparr>ticks := 2, refresh_calls := [''refresh-1'']\<rparr>)
     = (Inr (Some (''token-new'', ''project-1'')), refreshed_account,
        io0\<lparr>ticks := 3, refresh_calls := [''refresh-1'']\<rparr>)"
proof -
  note cur = current_one_account
  have fresh: "clock (sample_world 0 always_500) (ticks io0) < get_expires sample_account - 60"
    by (simp add: sample_world_sel get_expires_def sample_account_def)
  have a: "get_valid_token (sample_world 0 always_500) one_account io0
     = (Inr (Some (''token-1'', ''project-1'')), one_account, io0\<lparr>ticks := 1\<rparr>)"
    using refresh_iff_near_expiry [OF cur, of "sample_world 0 always_500" io0] fresh
    by (simp add: sample_account_def get_projectId_def io0_def)
  have near: "get_expires sample_account - 60 \<le> clock refreshing_world (ticks io0)"
    by (simp add: refreshing_world_def sample_world_def get_expires_def sample_account_def)
  have rf: "refresh_access_token refreshing_world (length (refresh_calls io0)) (refreshToken sample_account)
              = Some \<lparr>access_token = ''token-new'', expires_in = 3600\<rparr>"
    by (simp add: refreshing_world_def)
  have a': "sample_account\<lparr>access := ''token-new'', expires := Some 5600\<rparr> =
            sample_account\<lparr>access := access_token \<lparr>access_token = ''token-new'', expires_in = 3600\<rparr>,
              expires := Some (clock refreshing_world (Suc (ticks io0))
                               + expires_in \<lparr>access_token = ''token-new'', expires_in = 3600\<rparr>)\<rparr>"
    by (simp add: refreshing_world_def sample_world_def)
  have m2: "refreshed_account =
            one_account\<lparr>accounts := (accounts one_account)
               [place (accounts one_account) (active_index one_account) :=
                  sample_account\<lparr>access := ''token-new'', expires := Some 5600\<rparr>]\<rparr>"
    by (simp add: refreshed_account_def one_account_def place_def)
  have later: "clock refreshing_world (ticks (io0\<lparr>ticks := 2, refresh_calls := [''refresh-1'']\<rparr>))
      < clock refreshing_world (Suc (ticks io0))
        + expires_in \<lparr>access_token = ''token-new'', expires_in = 3600\<rparr> - 60"
    by (simp add: refreshing_world_def sample_world_def)
  from refresh_iff_near_expiry [OF cur, of refreshing_world io0]
  have "get_valid_token refreshing_world one_account io0 =
          (Inr (Some (access_token \<lparr>access_token = ''token-new'', expires_in = 3600\<rparr>,
                      get_projectId sample_account)), refreshed_account,
           io0\<lparr>ticks := Suc (Suc (ticks io0)),
               refresh_calls := refresh_calls io0 @ [refreshToken sample_account],
               disk := Doc (Some (accounts refreshed_account)) (Some (active_index refreshed_account))\<rparr>) \<and>
        get_current_account refreshed_account =
          (Inr (Some (sample_account\<lparr>access := ''token-new'', expires := Some 5600\<rparr>)), refreshed_account) \<and>
        (\<forall>s'. clock refreshing_world (ticks s')
                 < clock refreshing_world (Suc (ticks io0))
                   + expires_in \<lparr>access_token = ''token-new'', expires_in = 3600\<rparr> - 60 \<longrightarrow>
           get_valid_token refreshing_world refreshed_account s' =
             (Inr (Some (access_token \<lparr>access_token = ''token-new'', expires_in = 3600\<rparr>,
                         get_projectId sample_account)), refreshed_account,
              s'\<lparr>ticks := Suc (ticks s')\<rparr>))"
    using near rf a' m2 by blast
  then have b: "get_valid_token refreshing_world one_account io0
     = (Inr (Some (''token-new'', ''project-1'')), refreshed_account,
        io0\<lparr>ticks := 2, refresh_calls := [''refresh-1''],
            disk := Doc (Some (accounts refreshed_account)) (Some 0)\<rparr>)"
    and c: "get_valid_token refreshing_world refreshed_account
       (io0\<lparr>ticks := 2, refresh_calls := [''refresh-1'']\<rparr>)
     = (Inr (Some (''token-new'', ''project-1'')), refreshed_account,
        io0\<lparr>ticks := 3, refresh_calls := [''refresh-1'']\<rparr>)"
    using later
    by (simp_all add: io0_def sample_account_def get_projectId_def refreshed_account_def)
  show ?thesis using cur a b c by simp
qed

theorem refresh_failure_leaves_pool_witness:
  "get_current_account one_account = (Inr (Some sample_account), one_account) \<and>
   get_expires sample_account - 60 \<le> clock (sample_world 2000 always_500) (ticks io0) \<and>
   refresh_access_token (sample_world 2000 always_500) (length (refresh_calls io0))
     (refreshToken sample_account) = None \<and>
   get_valid_token (sample_world 2000 always_500) one_account io0
     = (Inr None, one_account, io0\<lparr>ticks := 1, refresh_calls := [''refresh-1'']\<rparr>)"
proof -
  have h2: "get_expires sample_account - 60 \<le> clock (sample_world 2000 always_500) (ticks io0)"
    by (simp add: sample_world_sel get_expires_def sample_account_def)
  have h3: "refresh_access_token (sample_world 2000 always_500) (length (refresh_calls io0))
     (refreshToken sample_account) = None"
    by (simp add: sample_world_sel)
  show ?thesis
    using refresh_failure_leaves_pool [OF current_one_account h2 h3] current_one_account h2 h3
    by (simp add: io0_def sample_account_def)
qed

text \<open>
  C6, as stated, fails on a pool loaded with a cursor beyond the list: the refresh
  fails, \<open>None\<close> is returned, and the pool has changed, its cursor being 0 instead of 5.
\<close>

theorem refresh_failure_clamps_stale_cursor_counterexample:
  "fst (get_valid_token (sample_world 2000 always_500) (init stale_file) io0) = Inr None \<and>
   active_index (init stale_file) = 5 \<and>
   active_index (fst (snd (get_valid_token (sample_world 2000 always_500) (init stale_file) io0))) = 0 \<and>
   fst (snd (get_valid_token (sample_world 2000 always_500) (init stale_file) io0)) \<noteq> init stale_file"
  by (simp add: manager_defs sample_defs sample_world_sel init_def load_def stale_file_def Let_def)


section \<open>The cursor stays usable\<close>

lemma rotate_account_nonneg:
  "0 \<le> active_index (fst (rotate_account m s)) \<or> accounts m = []"
  by (simp add: rotate_account_def Let_def)

lemma rotate_account_in_range:
  "accounts m \<noteq> [] \<Longrightarrow>
   0 \<le> active_index (fst (rotate_account m s)) \<and>
   active_index (fst (rotate_account m s)) < int (length (accounts m))"
  by (simp add: rotate_account_def Let_def)

lemma get_valid_token_nonneg:
  assumes "0 \<le> active_index m"
  shows "\<exists>x m' s'. get_valid_token w m s = (Inr x, m', s') \<and> 0 \<le> active_index m'"
proof -
  from current_account_nonneg [OF assms] obtain x m1 where
    cur: "get_current_account m = (Inr x, m1)" and nn: "0 \<le> active_index m1"
    by blast
  show ?thesis
  proof (cases x)
    case None
    with cur nn show ?thesis by (simp add: get_valid_token_def)
  next
    case (Some a)
    with cur nn show ?thesis
      by (auto simp: get_valid_token_def read_clock_def call_refresh_def Let_def
               split: option.splits prod.splits)
  qed
qed

lemma apply_operation_nonneg:
  assumes "0 \<le> active_index m"
  shows "\<exists>m' s'. apply_operation w x (m, s) = Inr (m', s') \<and> 0 \<le> active_index m'"
proof (cases x)
  case Current_account
  then show ?thesis
    using current_account_nonneg [OF assms] by auto
next
  case Valid_token
  then show ?thesis
    using get_valid_token_nonneg [OF assms, of w s] by auto
next
  case Rotate
  then show ?thesis
    using assms by (auto simp: rotate_account_def Let_def)
next
  case (Add a)
  then show ?thesis
    using assms by (simp add: add_account_def Let_def)
qed

lemma run_operations_nonneg:
  "0 \<le> active_index m \<Longrightarrow>
   \<exists>m' s'. run_operations w xs (m, s) = Inr (m', s') \<and> 0 \<le> active_index m'"
proof (induction xs arbitrary: m s)
  case Nil
  then show ?case by simp
next
  case (Cons x xs)
  from apply_operation_nonneg [OF Cons.prems, of w x s] obtain m1 s1 where
    step: "apply_operation w x (m, s) = Inr (m1, s1)" and nn: "0 \<le> active_index m1"
    by blast
  from Cons.IH [OF nn, of s1] show ?case
    by (simp add: step)
qed

text \<open>
  C8, as the code has it. Loading a backing file whose \<open>activeIndex\<close> is at or beyond the
  number of accounts keeps the stored cursor. The cursor is set to 0 by the
  current-account lookup, before the list is subscripted, and rotation reduces it modulo
  the number of accounts. No sequence of manager operations on the loaded pool raises,
  and whenever an account is read from a pool with a cursor that is not negative, the
  cursor lies between 0 and the number of accounts and the account read is the one at
  the cursor.
\<close>

theorem stale_cursor_clamped_on_read:
  assumes "int (length accts) \<le> i"
  shows "init (Doc (Some accts) (Some i)) = \<lparr>accounts = accts, active_index = i\<rparr> \<and>
         get_current_account (init (Doc (Some accts) (Some i))) =
           (if accts = [] then (Inr None, \<lparr>accounts = accts, active_index = i\<rparr>)
            else (Inr (Some (accts ! 0)), \<lparr>accounts = accts, active_index = 0\<rparr>)) \<and>
         (accts \<noteq> [] \<longrightarrow>
            0 \<le> active_index (fst (rotate_account (init (Doc (Some accts) (Some i))) s)) \<and>
            active_index (fst (rotate_account (init (Doc (Some accts) (Some i))) s))
              < int (length accts)) \<and>
         (\<forall>w xs. \<exists>m' s'.
            run_operations w xs (init (Doc (Some accts) (Some i)), s) = Inr (m', s') \<and>
            0 \<le> active_index m') \<and>
         (\<forall>m. 0 \<le> active_index m \<longrightarrow>
            (\<exists>x m'. get_current_account m = (Inr x, m') \<and> 0 \<le> active_index m' \<and>
               (\<forall>a. x = Some a \<longrightarrow>
                  active_index m' < int (length (accounts m')) \<and>
                  a = accounts m' ! nat (active_index m'))))"
proof -
  have ld: "init (Doc (Some accts) (Some i)) = \<lparr>accounts = accts, active_index = i\<rparr>"
    by (simp add: init_def load_def)
  have nn: "0 \<le> active_index (init (Doc (Some accts) (Some i)))"
    using assms by (simp add: ld)
  have cur: "get_current_account (init (Doc (Some accts) (Some i))) =
           (if accts = [] then (Inr None, \<lparr>accounts = accts, active_index = i\<rparr>)
            else (Inr (Some (accts ! 0)), \<lparr>accounts = accts, active_index = 0\<rparr>))"
    using assms by (simp add: ld get_current_account_def subscript_def place_def)
  have rot: "accts \<noteq> [] \<longrightarrow>
            0 \<le> active_index (fst (rotate_account (init (Doc (Some accts) (Some i))) s)) \<and>
            active_index (fst (rotate_account (init (Doc (Some accts) (Some i))) s))
              < int (length accts)"
    using rotate_account_in_range [of "init (Doc (Some accts) (Some i))" s] by (simp add: ld)
  have ops: "\<forall>w xs. \<exists>m' s'.
            run_operations w xs (init (Doc (Some accts) (Some i)), s) = Inr (m', s') \<and>
            0 \<le> active_index m'"
    using run_operations_nonneg [OF nn] by blast
  have rd: "\<forall>m. 0 \<le> active_index m \<longrightarrow>
            (\<exists>x m'. get_current_account m = (Inr x, m') \<and> 0 \<le> active_index m' \<and>
               (\<forall>a. x = Some a \<longrightarrow>
                  active_index m' < int (length (accounts m')) \<and>
                  a = accounts m' ! nat (active_index m')))"
    using current_account_nonneg by blast
  from ld cur rot ops rd show ?thesis by blast
qed

theorem stale_cursor_clamped_on_read_witness:
  "int (length [sample_account, other_account]) \<le> 5 \<and>
   init stale_file = \<lparr>accounts = [sample_account, other_account], active_index = 5\<rparr> \<and>
   get_current_account (init stale_file) =
     (Inr (Some sample_account), \<lparr>accounts = [sample_account, other_account], active_index = 0\<rparr>) \<and>
   (\<exists>m' s'. run_operations (sample_world 2000 always_500) [Rotate, Valid_token, Current_account]
               (init stale_file, io0) = Inr (m', s') \<and> 0 \<le> active_index m')"
proof -
  have h: "int (length [sample_account, other_account]) \<le> 5" by simp
  note t = stale_cursor_clamped_on_read [OF h, of io0]
  from t have a: "init (Doc (Some [sample_account, other_account]) (Some 5)) =
      \<lparr>accounts = [sample_account, other_account], active_index = 5\<rparr>"
    by blast
  from t have "get_current_account (init (Doc (Some [sample_account, other_account]) (Some 5))) =
      (if [sample_account, other_account] = []
       then (Inr None, \<lparr>accounts = [sample_account, other_account], active_index = 5\<rparr>)
       else (Inr (Some ([sample_account, other_account] ! 0)),
             \<lparr>accounts = [sample_account, other_account], active_index = 0\<rparr>))"
    by blast
  then have b: "get_current_account (init (Doc (Some [sample_account, other_account]) (Some 5))) =
      (Inr (Some sample_account), \<lparr>accounts = [sample_account, other_account], active_index = 0\<rparr>)"
    by simp
  from t have c: "\<exists>m' s'. run_operations (sample_world 2000 always_500)
        [Rotate, Valid_token, Current_account]
        (init (Doc (Some [sample_account, other_account]) (Some 5)), io0) = Inr (m', s') \<and>
      0 \<le> active_index m'"
    by blast
  show ?thesis
    unfolding stale_file_def using h a b c by blast
qed

text \<open>
  C8, as stated, fails: after loading a file with two accounts and \<open>activeIndex\<close> 5 the
  cursor is 5, not 0; a rotation then moves it to 0, where a pool with the cursor set to
  0 on load would move to 1.
\<close>

theorem load_keeps_stale_cursor_counterexample:
  "active_index (init stale_file) = 5 \<and>
   active_index (init stale_file) \<noteq> 0 \<and>
   active_index (fst (rotate_account (init stale_file) io0)) = 0 \<and>
   active_index (fst (rotate_account ((init stale_file)\<lparr>active_index := 0\<rparr>) io0)) = 1"
  by (simp add: init_def load_def stale_file_def rotate_account_def Let_def)

section \<open>Base64: the alphabet\<close>

lemma b64_symbol_code: "n < 64 \<Longrightarrow> (of_char (b64_symbol n) :: nat) \<noteq> 61"
  by (auto simp: b64_symbol_def)

lemma b64_symbol_not_pad: "n < 64 \<Longrightarrow> b64_symbol n \<noteq> CHR ''=''"
  using b64_symbol_code [of n] by auto

lemma sextets:
  fixes x y z :: nat
  assumes "x < 256" and "y < 256" and "z < 256"
  shows "x div 4 < 64" and "x mod 4 * 16 + y div 16 < 64" and "y mod 16 * 4 + z div 64 < 64"
    and "z mod 64 < 64" and "x mod 4 * 16 < 64" and "y mod 16 * 4 < 64"
  using assms by simp_all

lemma b64_value_symbol: "n < 64 \<Longrightarrow> b64_value (b64_symbol n) = Some n"
  unfolding b64_value_def b64_symbol_def Let_def
  by (simp split: if_splits) arith

lemma octet1:
  fixes x y :: nat
  assumes "y < 256"
  shows "x div 4 * 4 + (x mod 4 * 16 + y div 16) div 16 = x"
proof -
  have "y div 16 < 16" using assms by simp
  then have "(x mod 4 * 16 + y div 16) div 16 = x mod 4" by simp
  then show ?thesis by simp
qed

lemma octet2:
  fixes x y z :: nat
  assumes "y < 256" and "z < 256"
  shows "(x mod 4 * 16 + y div 16) mod 16 * 16 + (y mod 16 * 4 + z div 64) div 4 = y"
proof -
  have a: "y div 16 < 16" and b: "z div 64 < 4" using assms by simp_all
  from a have "(x mod 4 * 16 + y div 16) mod 16 = y div 16" by simp
  moreover from b have "(y mod 16 * 4 + z div 64) div 4 = y mod 16" by simp
  ultimately show ?thesis by simp
qed

lemma octet3:
  fixes y z :: nat
  assumes "z < 256"
  shows "(y mod 16 * 4 + z div 64) mod 4 * 64 + z mod 64 = z"
proof -
  have "z div 64 < 4" using assms by simp
  then have "(y mod 16 * 4 + z div 64) mod 4 = z div 64" by simp
  then show ?thesis by simp
qed

lemma octet1_last: "x div 4 * 4 + (x mod 4 * 16) div 16 = (x::nat)"
  by simp

lemma octet2_last:
  fixes x y :: nat
  assumes "y < 256"
  shows "(x mod 4 * 16 + y div 16) mod 16 * 16 + (y mod 16 * 4) div 4 = y"
proof -
  have "y div 16 < 16" using assms by simp
  then have "(x mod 4 * 16 + y div 16) mod 16 = y div 16" by simp
  then show ?thesis by simp
qed


section \<open>Base64: decoding what was encoded\<close>

lemma decode_group_encoded:
  fixes a b c :: char
  defines "x \<equiv> (of_char a :: nat)" and "y \<equiv> (of_char b :: nat)" and "z \<equiv> (of_char c :: nat)"
  shows "decode_group (b64_symbol (x div 4)) (b64_symbol (x mod 4 * 16 + y div 16))
           (b64_symbol (y mod 16 * 4 + z div 64)) (b64_symbol (z mod 64)) = Some [a, b, c]"
proof -
  have bx: "x < 256" and by': "y < 256" and bz: "z < 256"
    by (simp_all add: x_def y_def z_def)
  define i j k l where "i = x div 4" and "j = x mod 4 * 16 + y div 16"
    and "k = y mod 16 * 4 + z div 64" and "l = z mod 64"
  have lt: "i < 64" "j < 64" "k < 64" "l < 64"
    unfolding i_def j_def k_def l_def using sextets [OF bx by' bz] by blast+
  have eq: "i * 4 + j div 16 = x" "j mod 16 * 16 + k div 4 = y" "k mod 4 * 64 + l = z"
    unfolding i_def j_def k_def l_def
    by (rule octet1 [OF by'], rule octet2 [OF by' bz], rule octet3 [OF bz])
  have "decode_group (b64_symbol i) (b64_symbol j) (b64_symbol k) (b64_symbol l) =
          Some [char_of (i * 4 + j div 16), char_of (j mod 16 * 16 + k div 4),
                char_of (k mod 4 * 64 + l)]"
    by (simp add: decode_group_def b64_value_symbol lt)
  also have "\<dots> = Some [char_of x, char_of y, char_of z]"
    by (simp only: eq)
  also have "\<dots> = Some [a, b, c]"
    by (simp add: x_def y_def z_def)
  finally show ?thesis
    unfolding i_def j_def k_def l_def .
qed

lemma decode_last_group_full:
  "r \<noteq> CHR ''='' \<Longrightarrow> s \<noteq> CHR ''='' \<Longrightarrow> decode_last_group p q r s = decode_group p q r s"
  by (simp add: decode_last_group_def)

lemma decode_last_group_one:
  fixes a :: char
  defines "x \<equiv> (of_char a :: nat)"
  shows "decode_last_group (b64_symbol (x div 4)) (b64_symbol (x mod 4 * 16))
           (CHR ''='') (CHR ''='') = Some [a]"
proof -
  have bx: "x < 256" by (simp add: x_def)
  define i j where "i = x div 4" and "j = x mod 4 * 16"
  have lt: "i < 64" "j < 64"
    unfolding i_def j_def using sextets [OF bx bx bx] by blast+
  have eq: "i * 4 + j div 16 = x"
    unfolding i_def j_def by (rule octet1_last)
  have "decode_last_group (b64_symbol i) (b64_symbol j) (CHR ''='') (CHR ''='') =
          Some [char_of (i * 4 + j div 16)]"
    by (simp add: decode_last_group_def b64_value_symbol lt)
  also have "\<dots> = Some [char_of x]"
    by (simp only: eq)
  also have "\<dots> = Some [a]"
    by (simp add: x_def)
  finally show ?thesis
    unfolding i_def j_def .
qed

lemma decode_last_group_two:
  fixes a b :: char
  defines "x \<equiv> (of_char a :: nat)" and "y \<equiv> (of_char b :: nat)"
  shows "decode_last_group (b64_symbol (x div 4)) (b64_symbol (x mod 4 * 16 + y div 16))
           (b64_symbol (y mod 16 * 4)) (CHR ''='') = Some [a, b]"
proof -
  have bx: "x < 256" and by': "y < 256" by (simp_all add: x_def y_def)
  define i j k where "i = x div 4" and "j = x mod 4 * 16 + y div 16" and "k = y mod 16 * 4"
  have lt: "i < 64" "j < 64" "k < 64"
    unfolding i_def j_def k_def using sextets [OF bx by' by'] by blast+
  have eq: "i * 4 + j div 16 = x" "j mod 16 * 16 + k div 4 = y"
    unfolding i_def j_def k_def by (rule octet1 [OF by'], rule octet2_last [OF by'])
  have "decode_last_group (b64_symbol i) (b64_symbol j) (b64_symbol k) (CHR ''='') =
          Some [char_of (i * 4 + j div 16), char_of (j mod 16 * 16 + k div 4)]"
    by (simp add: decode_last_group_def b64_value_symbol lt b64_symbol_not_pad)
  also have "\<dots> = Some [char_of x, char_of y]"
    by (simp only: eq)
  also have "\<dots> = Some [a, b]"
    by (simp add: x_def y_def)
  finally show ?thesis
    unfolding i_def j_def k_def .
qed

lemma urlsafe_b64encode_empty: "urlsafe_b64encode bs = [] \<longleftrightarrow> bs = []"
  by (cases bs rule: urlsafe_b64encode.cases) simp_all

lemma urlsafe_b64decode_encode: "urlsafe_b64decode (urlsafe_b64encode bs) = Some bs"
proof (induction bs rule: urlsafe_b64encode.induct)
  case 1
  show ?case by simp
next
  case (2 a)
  show ?case by (simp add: decode_last_group_one)
next
  case (3 a b)
  show ?case by (simp add: decode_last_group_two)
next
  case (4 a b c rest)
  have ba: "(of_char a :: nat) < 256" and bb: "(of_char b :: nat) < 256"
    and bc: "(of_char c :: nat) < 256" by simp_all
  note sx = sextets [OF ba bb bc]
  show ?case
  proof (cases "rest = []")
    case True
    then show ?thesis
      by (simp add: decode_last_group_full b64_symbol_not_pad sx decode_group_encoded)
  next
    case False
    then show ?thesis
      using "4.IH" by (simp add: urlsafe_b64encode_empty decode_group_encoded)
  qed
qed

section \<open>Base64: stripping the padding and putting it back\<close>

lemma urlsafe_b64encode_shape:
  "\<exists>d k. urlsafe_b64encode bs = d @ replicate k (CHR ''='') \<and> CHR ''='' \<notin> set d \<and>
         k < 4 \<and> (length d + k) mod 4 = 0"
proof (induction bs rule: urlsafe_b64encode.induct)
  case 1
  show ?case by simp
next
  case (2 a)
  have ba: "(of_char a :: nat) < 256" by simp
  note sx = sextets [OF ba ba ba]
  let ?d = "[b64_symbol (of_char a div 4), b64_symbol (of_char a mod 4 * 16)]"
  have "urlsafe_b64encode [a] = ?d @ replicate 2 (CHR ''='')"
    by (simp add: numeral_2_eq_2)
  moreover have "CHR ''='' \<notin> set ?d"
    using b64_symbol_not_pad sx by (simp add: eq_commute [of "CHR ''=''"])
  ultimately show ?case
    by (intro exI [of _ ?d] exI [of _ 2]) simp
next
  case (3 a b)
  have ba: "(of_char a :: nat) < 256" and bb: "(of_char b :: nat) < 256" by simp_all
  note sx = sextets [OF ba bb bb]
  let ?d = "[b64_symbol (of_char a div 4),
             b64_symbol (of_char a mod 4 * 16 + of_char b div 16),
             b64_symbol (of_char b mod 16 * 4)]"
  have "urlsafe_b64encode [a, b] = ?d @ replicate 1 (CHR ''='')"
    by simp
  moreover have "CHR ''='' \<notin> set ?d"
    using b64_symbol_not_pad sx by (simp add: eq_commute [of "CHR ''=''"])
  ultimately show ?case
    by (intro exI [of _ ?d] exI [of _ 1]) simp
next
  case (4 a b c rest)
  have ba: "(of_char a :: nat) < 256" and bb: "(of_char b :: nat) < 256"
    and bc: "(of_char c :: nat) < 256" by simp_all
  note sx = sextets [OF ba bb bc]
  let ?g = "[b64_symbol (of_char a div 4),
             b64_symbol (of_char a mod 4 * 16 + of_char b div 16),
             b64_symbol (of_char b mod 16 * 4 + of_char c div 64),
             b64_symbol (of_char c mod 64)]"
  from "4.IH" obtain d k where IH: "urlsafe_b64encode rest = d @ replicate k (CHR ''='')"
    "CHR ''='' \<notin> set d" "k < 4" "(length d + k) mod 4 = 0"
    by auto
  have g: "CHR ''='' \<notin> set ?g"
    using b64_symbol_not_pad sx by (simp add: eq_commute [of "CHR ''=''"])
  have e: "urlsafe_b64encode (a # b # c # rest) = (?g @ d) @ replicate k (CHR ''='')"
    using IH(1) by simp
  have n: "CHR ''='' \<notin> set (?g @ d)"
    using g IH(2) by simp
  have l: "(length (?g @ d) + k) mod 4 = 0"
    using IH(4) by simp
  show ?case
    by (intro exI [of _ "?g @ d"] exI [of _ k] conjI e n IH(3) l)
qed

lemma rstrip_padding: "c \<notin> set d \<Longrightarrow> rstrip c (d @ replicate k c) = d"
proof -
  assume c: "c \<notin> set d"
  have "dropWhile (\<lambda>x. x = c) (replicate k c @ rev d) = dropWhile (\<lambda>x. x = c) (rev d)"
    by (rule dropWhile_append2) simp
  moreover have "dropWhile (\<lambda>x. x = c) (rev d) = rev d"
    using c by (cases "rev d") (auto simp: rev_eq_Cons_iff)
  ultimately show ?thesis
    by (simp add: rstrip_def)
qed

lemma restore_padding:
  assumes "k < 4" and "(length d + k) mod 4 = 0"
  shows "(if 4 - length d mod 4 \<noteq> 4 then d @ replicate (4 - length d mod 4) c else d)
           = d @ replicate k c"
proof -
  have "length d mod 4 = 0 \<Longrightarrow> k = 0" using assms by presburger
  moreover have "length d mod 4 \<noteq> 0 \<Longrightarrow> 4 - length d mod 4 = k" using assms by presburger
  ultimately show ?thesis by auto
qed

lemma padding_restored:
  "(let state = rstrip (CHR ''='') (urlsafe_b64encode bs); padding = 4 - length state mod 4
    in if padding \<noteq> 4 then state @ replicate padding (CHR ''='') else state)
     = urlsafe_b64encode bs"
proof -
  obtain d k where s: "urlsafe_b64encode bs = d @ replicate k (CHR ''='')"
    "CHR ''='' \<notin> set d" "k < 4" "(length d + k) mod 4 = 0"
    using urlsafe_b64encode_shape [of bs] by auto
  show ?thesis
    using restore_padding [OF s(3,4), of "CHR ''=''"]
    by (simp add: s(1) rstrip_padding [OF s(2)] Let_def)
qed

text \<open>
  C9. For every payload that the JSON library itself reads back from its own output,
  \<open>decode_state (encode_state payload)\<close> is the payload. The encoder strips the \<open>=\<close>
  padding of the base64 text, and the padding that the decoder computes from the length
  of the token puts back exactly the text that was stripped, for every byte string.
\<close>

theorem state_round_trip:
  assumes "json_loads w (json_dumps w payload) = Some payload"
  shows "decode_state w (encode_state w payload) = Some payload \<and>
         (let state = encode_state w payload; padding = 4 - length state mod 4
          in if padding \<noteq> 4 then state @ replicate padding (CHR ''='') else state)
           = urlsafe_b64encode (json_dumps w payload)"
proof -
  have p: "(let state = encode_state w payload; padding = 4 - length state mod 4
          in if padding \<noteq> 4 then state @ replicate padding (CHR ''='') else state)
           = urlsafe_b64encode (json_dumps w payload)"
    using padding_restored [of "json_dumps w payload"] by (simp add: encode_state_def Let_def)
  then have "decode_state w (encode_state w payload) = Some payload"
    using assms by (simp add: decode_state_def Let_def urlsafe_b64decode_encode)
  with p show ?thesis by simp
qed


lemma char_of_eq: "char_of (n::nat) = c \<longleftrightarrow> n mod 256 = of_char c"
  by (auto simp: char_of_eq_iff take_bit_eq_mod)

lemma sample_state_token:
  "encode_state (sample_world 0 always_500) sample_state
     = ''eyJ2ZXJpZmllciI6ICJ2M3JpZmllciIsICJwcm9qZWN0SWQiOiAiIn0''"
  by (simp add: encode_state_def sample_world_def sample_state_bytes_def rstrip_def b64_symbol_def
        char_of_eq)

theorem state_round_trip_witness:
  "json_loads (sample_world 0 always_500) (json_dumps (sample_world 0 always_500) sample_state)
     = Some sample_state \<and>
   encode_state (sample_world 0 always_500) sample_state
     = ''eyJ2ZXJpZmllciI6ICJ2M3JpZmllciIsICJwcm9qZWN0SWQiOiAiIn0'' \<and>
   decode_state (sample_world 0 always_500)
       ''eyJ2ZXJpZmllciI6ICJ2M3JpZmllciIsICJwcm9qZWN0SWQiOiAiIn0''
     = Some sample_state"
proof -
  have h: "json_loads (sample_world 0 always_500)
             (json_dumps (sample_world 0 always_500) sample_state) = Some sample_state"
    by (simp add: sample_world_def sample_loads_def sample_state_bytes_def hel_line_def lo_line_def)
  from state_round_trip [OF h]
  have "decode_state (sample_world 0 always_500)
          (encode_state (sample_world 0 always_500) sample_state) = Some sample_state"
    by blast
  then show ?thesis
    using h by (simp only: sample_state_token simp_thms)
qed

section \<open>A pool that always meets a server error\<close>

lemma try_endpoints_all_500:
  assumes "\<forall>n rq. \<exists>resp. post w n rq = Response resp \<and> status_code resp = 500"
  shows "try_endpoints w token project_id es r =
           (Next_attempt,
            r\<lparr>sent := sent r @ map (\<lambda>e. stream_request e token project_id) es,
              last_error := (if es = [] then last_error r else Some (Server_error 500 (last es)))\<rparr>)"
proof (induction es arbitrary: r)
  case Nil
  show ?case by simp
next
  case (Cons endpoint rest)
  obtain resp where resp:
    "post w (length (sent r)) (stream_request endpoint token project_id) = Response resp"
    "status_code resp = 500"
    using assms by blast
  show ?case
    using resp by (simp add: Let_def Cons.IH)
qed

lemma stream_generate_content_budget:
  "ensure_auth w m s = Inr (m0, s0) \<Longrightarrow>
   stream_generate_content w m s = attempt_loop w (3 * length (accounts m0)) (start m0 s0)"
  by (auto simp: stream_generate_content_def ensure_auth_def Let_def split: if_splits)

lemma current_account_exists:
  assumes "accounts m \<noteq> []" and "- int (length (accounts m)) \<le> active_index m"
  shows "\<exists>a m1. get_current_account m = (Inr (Some a), m1)"
  using assms by (auto simp: get_current_account_def subscript_def Let_def)

lemma get_valid_token_serviceable:
  assumes "serviceable w m"
  shows "\<exists>token project_id m' s'.
           get_valid_token w m s = (Inr (Some (token, project_id)), m', s') \<and> token \<noteq> [] \<and>
           serviceable w m' \<and> length (accounts m') = length (accounts m)"
proof -
  from assms have ne: "accounts m \<noteq> []" and lo: "- int (length (accounts m)) \<le> active_index m"
    and tok: "\<forall>a \<in> set (accounts m). access a \<noteq> []"
    and alt: "(\<forall>a \<in> set (accounts m). \<forall>n. clock w n < get_expires a - 60) \<or>
      (\<forall>n rt. \<exists>tk. refresh_access_token w n rt = Some tk \<and> access_token tk \<noteq> [])"
    by (simp_all add: serviceable_def)
  from current_account_exists [OF ne lo] obtain a m1 where
    cur: "get_current_account m = (Inr (Some a), m1)" by blast
  note d = current_accountD [OF cur]
  have mem: "a \<in> set (accounts m)"
    using d(2,6,7) nth_mem by metis
  have s1: "serviceable w m1"
    using ne lo tok alt d(2,3,5) by (auto simp: serviceable_def)
  show ?thesis
  proof (cases "clock w (ticks s) < get_expires a - 60")
    case True
    from get_valid_token_fresh_token [OF cur True] show ?thesis
      using tok mem s1 d(2) by auto
  next
    case False
    then have near: "get_expires a - 60 \<le> clock w (ticks s)" by simp
    with alt mem have all: "\<forall>n rt. \<exists>tk. refresh_access_token w n rt = Some tk \<and> access_token tk \<noteq> []"
      by (meson not_le)
    then obtain tk where tk: "refresh_access_token w (length (refresh_calls s)) (refreshToken a) = Some tk"
      and tkne: "access_token tk \<noteq> []" by blast
    define a' where "a' = a\<lparr>access := access_token tk,
                 expires := Some (clock w (Suc (ticks s)) + expires_in tk)\<rparr>"
    define m2 where "m2 = m1\<lparr>accounts := (accounts m1)[place (accounts m1) (active_index m1) := a']\<rparr>"
    have "set (accounts m2) \<subseteq> insert a' (set (accounts m1))"
      by (simp add: m2_def set_update_subset_insert)
    then have tok2: "\<forall>b \<in> set (accounts m2). access b \<noteq> []"
      using tok d(2) tkne by (auto simp: a'_def)
    have s2: "serviceable w m2"
      using ne lo d(2,5) tok2 all by (simp add: serviceable_def m2_def)
    from get_valid_token_refreshed [OF cur near tk a'_def m2_def] show ?thesis
      using tkne s2 d(2) by (auto simp: m2_def)
  qed
qed

lemma attempt_fails_with_500:
  assumes "\<forall>n rq. \<exists>resp. post w n rq = Response resp \<and> status_code resp = 500"
    and "serviceable w (manager r)" and "attempts r < n"
  shows "\<exists>r'. attempt_loop w n r = attempt_loop w n r' \<and> serviceable w (manager r') \<and>
           length (accounts (manager r')) = length (accounts (manager r)) \<and>
           attempts r' = attempts r + 1 \<and> length (sent r') = length (sent r) + 3 \<and>
           yielded r' = yielded r \<and>
           last_error r' = Some (Server_error 500 CODE_ASSIST_ENDPOINT_PROD)"
proof -
  from get_valid_token_serviceable [OF assms(2), of "effects r"] obtain token project_id m1 s1 where
    gv: "get_valid_token w (manager r) (effects r) = (Inr (Some (token, project_id)), m1, s1)"
    and ne: "token \<noteq> []" and sv: "serviceable w m1"
    and len: "length (accounts m1) = length (accounts (manager r))"
    by blast
  let ?r' = "tried_all token project_id (attempted r m1 s1)"
  have te: "try_endpoints w token project_id CODE_ASSIST_ENDPOINT_FALLBACKS (attempted r m1 s1) =
              (Next_attempt, ?r')"
    unfolding try_endpoints_all_500 [OF assms(1)]
    by (simp add: tried_all_def CODE_ASSIST_ENDPOINT_FALLBACKS_def)
  have "attempt_loop w n r = attempt_loop w n ?r'"
    by (rule attempt_loop_next [OF assms(3) gv ne te])
  moreover have "serviceable w (manager ?r')" and "length (accounts (manager ?r')) = length (accounts (manager r))"
    and "attempts ?r' = attempts r + 1" and "length (sent ?r') = length (sent r) + 3"
    and "yielded ?r' = yielded r"
    and "last_error ?r' = Some (Server_error 500 CODE_ASSIST_ENDPOINT_PROD)"
    using sv len by (simp_all add: tried_all_def attempted_def CODE_ASSIST_ENDPOINT_FALLBACKS_def)
  ultimately show ?thesis by blast
qed

lemma loop_fails_with_500:
  assumes "\<forall>n rq. \<exists>resp. post w n rq = Response resp \<and> status_code resp = 500"
  shows "serviceable w (manager r) \<Longrightarrow> attempts r + k = n \<Longrightarrow>
         fst (attempt_loop w n r) =
           Some (All_accounts_failed (if k = 0 then last_error r
                   else Some (Server_error 500 CODE_ASSIST_ENDPOINT_PROD))) \<and>
         attempts (snd (attempt_loop w n r)) = n \<and>
         length (sent (snd (attempt_loop w n r))) = length (sent r) + 3 * k \<and>
         yielded (snd (attempt_loop w n r)) = yielded r \<and>
         length (accounts (manager (snd (attempt_loop w n r)))) = length (accounts (manager r))"
proof (induction k arbitrary: r)
  case 0
  then show ?case by (simp add: attempt_loop_exhausted)
next
  case (Suc k)
  have lt: "attempts r < n" using Suc.prems by simp
  from attempt_fails_with_500 [OF assms Suc.prems(1) lt] obtain r' where
    step: "attempt_loop w n r = attempt_loop w n r'" and sv: "serviceable w (manager r')"
    and len: "length (accounts (manager r')) = length (accounts (manager r))"
    and att: "attempts r' = attempts r + 1" and snt: "length (sent r') = length (sent r) + 3"
    and yld: "yielded r' = yielded r"
    and le: "last_error r' = Some (Server_error 500 CODE_ASSIST_ENDPOINT_PROD)"
    by blast
  have "attempts r' + k = n" using att Suc.prems(2) by simp
  from Suc.IH [OF sv this] show ?case
    by (simp add: step len snt yld le)
qed

lemma fold_add_account:
  "accounts (fst (fold (\<lambda>acct (m', s'). add_account acct m' s') xs (m, s))) = accounts m @ xs"
proof (induction xs arbitrary: m s)
  case Nil
  show ?case by simp
next
  case (Cons x xs)
  obtain m1 s1 where a: "add_account x m s = (m1, s1)" by (cases "add_account x m s")
  then have "accounts m1 = accounts m @ [x]"
    by (auto simp: add_account_def Let_def)
  then show ?case
    using Cons.IH [of m1 s1] a by simp
qed

lemma ensure_auth_nonempty:
  assumes "ensure_auth w m s = Inr (m0, s0)"
  shows "accounts m0 \<noteq> []"
proof (cases "accounts m = []")
  case False
  with assms show ?thesis by (simp add: ensure_auth_def)
next
  case True
  with assms obtain a others where
    "fold (\<lambda>acct (m', s'). add_account acct m' s') others (add_account a m s) = (m0, s0)"
    by (auto simp: ensure_auth_def split: option.splits)
  then have "accounts m0 = accounts m @ a # others"
    using fold_add_account [of "a # others" m s] by simp
  then show ?thesis by simp
qed


text \<open>
  C4. Let the pool hold \<open>N\<close> accounts when the loop is entered (the pool as it is, or as
  \<open>ensure_auth\<close> filled it), let every attempt obtain a token (the stored tokens stay
  fresh, or every refresh succeeds), and let every request be answered with status 500.
  Then the engine makes exactly \<open>3 * N\<close> attempts and \<open>9 * N\<close> requests, yields nothing,
  and raises the exhaustion error with the last recorded error, the server error of the
  last endpoint; with one account that is exactly three attempts. The budget is the
  number fixed before the loop: entered with a budget \<open>n\<close>, the loop runs to exactly \<open>n\<close>
  attempts whatever the number of accounts in the pool it works on, and in no world does
  it make more than \<open>n\<close>.
\<close>

theorem exhaustion_after_three_attempts:
  assumes "ensure_auth w m s = Inr (m0, s0)"
    and "- int (length (accounts m0)) \<le> active_index m0"
    and "\<forall>a \<in> set (accounts m0). access a \<noteq> []"
    and "(\<forall>a \<in> set (accounts m0). \<forall>n. clock w n < get_expires a - 60) \<or>
         (\<forall>n rt. \<exists>tk. refresh_access_token w n rt = Some tk \<and> access_token tk \<noteq> [])"
    and "\<forall>n rq. \<exists>resp. post w n rq = Response resp \<and> status_code resp = 500"
  shows "fst (stream_generate_content w m s) =
           Some (All_accounts_failed (Some (Server_error 500 CODE_ASSIST_ENDPOINT_PROD))) \<and>
         attempts (snd (stream_generate_content w m s)) = 3 * length (accounts m0) \<and>
         length (sent (snd (stream_generate_content w m s))) = 9 * length (accounts m0) \<and>
         yielded (snd (stream_generate_content w m s)) = [] \<and>
         (length (accounts m0) = 1 \<longrightarrow> attempts (snd (stream_generate_content w m s)) = 3) \<and>
         (\<forall>n r. serviceable w (manager r) \<and> attempts r \<le> n \<longrightarrow>
            attempts (snd (attempt_loop w n r)) = n \<and>
            length (sent (snd (attempt_loop w n r))) = length (sent r) + 3 * (n - attempts r)) \<and>
         (\<forall>v n r. attempts (snd (attempt_loop v n r)) \<le> max n (attempts r))"
proof -
  have ne: "accounts m0 \<noteq> []"
    using assms(1) by (rule ensure_auth_nonempty)
  have sv: "serviceable w m0"
    using ne assms(2-4) by (simp add: serviceable_def)
  have sg: "stream_generate_content w m s = attempt_loop w (3 * length (accounts m0)) (start m0 s0)"
    using assms(1) by (rule stream_generate_content_budget)
  have pos: "3 * length (accounts m0) \<noteq> 0"
    using ne by simp
  have run: "fst (attempt_loop w (3 * length (accounts m0)) (start m0 s0)) =
           Some (All_accounts_failed (if 3 * length (accounts m0) = 0 then last_error (start m0 s0)
                   else Some (Server_error 500 CODE_ASSIST_ENDPOINT_PROD))) \<and>
         attempts (snd (attempt_loop w (3 * length (accounts m0)) (start m0 s0)))
           = 3 * length (accounts m0) \<and>
         length (sent (snd (attempt_loop w (3 * length (accounts m0)) (start m0 s0))))
           = length (sent (start m0 s0)) + 3 * (3 * length (accounts m0)) \<and>
         yielded (snd (attempt_loop w (3 * length (accounts m0)) (start m0 s0)))
           = yielded (start m0 s0) \<and>
         length (accounts (manager (snd (attempt_loop w (3 * length (accounts m0)) (start m0 s0)))))
           = length (accounts (manager (start m0 s0)))"
    by (rule loop_fails_with_500 [OF assms(5)]) (simp_all add: start_def sv)
  have any: "\<forall>n r. serviceable w (manager r) \<and> attempts r \<le> n \<longrightarrow>
            attempts (snd (attempt_loop w n r)) = n \<and>
            length (sent (snd (attempt_loop w n r))) = length (sent r) + 3 * (n - attempts r)"
  proof (intro allI impI)
    fix n and r :: run
    assume h: "serviceable w (manager r) \<and> attempts r \<le> n"
    then have "attempts r + (n - attempts r) = n" by simp
    from loop_fails_with_500 [OF assms(5) _ this] h
    show "attempts (snd (attempt_loop w n r)) = n \<and>
            length (sent (snd (attempt_loop w n r))) = length (sent r) + 3 * (n - attempts r)"
      by blast
  qed
  from run pos have c1: "fst (stream_generate_content w m s) =
           Some (All_accounts_failed (Some (Server_error 500 CODE_ASSIST_ENDPOINT_PROD)))"
    and c2: "attempts (snd (stream_generate_content w m s)) = 3 * length (accounts m0)"
    and c3: "length (sent (snd (stream_generate_content w m s))) = 9 * length (accounts m0)"
    and c4: "yielded (snd (stream_generate_content w m s)) = []"
    by (simp_all add: sg start_def)
  from c2 have c5: "length (accounts m0) = 1 \<longrightarrow>
      attempts (snd (stream_generate_content w m s)) = 3"
    by simp
  have c7: "\<forall>v n r. attempts (snd (attempt_loop v n r)) \<le> max n (attempts r)"
    by (simp add: attempt_loop_budget)
  from c1 c2 c3 c4 c5 any c7 show ?thesis
    by (intro conjI)
qed

theorem exhaustion_after_three_attempts_witness:
  "ensure_auth (sample_world 0 always_500) one_account io0 = Inr (one_account, io0) \<and>
   (\<forall>n. clock (sample_world 0 always_500) n < get_expires sample_account - 60) \<and>
   fst (stream_generate_content (sample_world 0 always_500) one_account io0) =
     Some (All_accounts_failed (Some (Server_error 500 CODE_ASSIST_ENDPOINT_PROD))) \<and>
   attempts (snd (stream_generate_content (sample_world 0 always_500) one_account io0)) = 3 \<and>
   length (sent (snd (stream_generate_content (sample_world 0 always_500) one_account io0))) = 9 \<and>
   ensure_auth refreshing_world two_accounts io0 = Inr (two_accounts, io0) \<and>
   (\<forall>n rt. \<exists>tk. refresh_access_token refreshing_world n rt = Some tk \<and> access_token tk \<noteq> []) \<and>
   fst (stream_generate_content refreshing_world two_accounts io0) =
     Some (All_accounts_failed (Some (Server_error 500 CODE_ASSIST_ENDPOINT_PROD))) \<and>
   attempts (snd (stream_generate_content refreshing_world two_accounts io0)) = 6 \<and>
   length (sent (snd (stream_generate_content refreshing_world two_accounts io0))) = 18"
proof -
  have a1: "ensure_auth (sample_world 0 always_500) one_account io0 = Inr (one_account, io0)"
    by (simp add: ensure_auth_def one_account_def)
  have a2: "- int (length (accounts one_account)) \<le> active_index one_account"
    by (simp add: one_account_def)
  have a3: "\<forall>a \<in> set (accounts one_account). access a \<noteq> []"
    by (simp add: one_account_def sample_account_def)
  have a4: "\<forall>a \<in> set (accounts one_account). \<forall>n. clock (sample_world 0 always_500) n < get_expires a - 60"
    by (simp add: one_account_def sample_account_def sample_world_sel get_expires_def)
  have a5: "\<forall>n rq. \<exists>resp. post (sample_world 0 always_500) n rq = Response resp \<and> status_code resp = 500"
    by (simp add: sample_world_sel always_500_def answer_def)
  have b1: "ensure_auth refreshing_world two_accounts io0 = Inr (two_accounts, io0)"
    by (simp add: ensure_auth_def two_accounts_def)
  have b2: "- int (length (accounts two_accounts)) \<le> active_index two_accounts"
    by (simp add: two_accounts_def)
  have b3: "\<forall>a \<in> set (accounts two_accounts). access a \<noteq> []"
    by (simp add: two_accounts_def sample_account_def other_account_def)
  have b4: "\<forall>n rt. \<exists>tk. refresh_access_token refreshing_world n rt = Some tk \<and> access_token tk \<noteq> []"
    by (simp add: refreshing_world_def)
  have b5: "\<forall>n rq. \<exists>resp. post refreshing_world n rq = Response resp \<and> status_code resp = 500"
    by (simp add: refreshing_world_def sample_world_def always_500_def answer_def)
  have la: "length (accounts one_account) = 1" and lb: "length (accounts two_accounts) = 2"
    by (simp_all add: one_account_def two_accounts_def)
  note ta = exhaustion_after_three_attempts [OF a1 a2 a3 disjI1 [OF a4] a5]
  note tb = exhaustion_after_three_attempts [OF b1 b2 b3 disjI2 [OF b4] b5]
  from ta have ra: "fst (stream_generate_content (sample_world 0 always_500) one_account io0) =
     Some (All_accounts_failed (Some (Server_error 500 CODE_ASSIST_ENDPOINT_PROD)))"
    and "attempts (snd (stream_generate_content (sample_world 0 always_500) one_account io0))
           = 3 * length (accounts one_account)"
    and "length (sent (snd (stream_generate_content (sample_world 0 always_500) one_account io0)))
           = 9 * length (accounts one_account)"
    by blast+
  moreover from tb have "fst (stream_generate_content refreshing_world two_accounts io0) =
     Some (All_accounts_failed (Some (Server_error 500 CODE_ASSIST_ENDPOINT_PROD)))"
    and "attempts (snd (stream_generate_content refreshing_world two_accounts io0))
           = 3 * length (accounts two_accounts)"
    and "length (sent (snd (stream_generate_content refreshing_world two_accounts io0)))
           = 9 * length (accounts two_accounts)"
    by blast+
  moreover have "\<forall>n. clock (sample_world 0 always_500) n < get_expires sample_account - 60"
    using a4 by (simp add: one_account_def)
  ultimately show ?thesis
    using a1 b1 b4 by (simp only: la lb) simp
qed

end
